theory Spec2Isabelle
  imports Main "HOL-Library.Sublist"
begin

section \<open>Python errors\<close>

text \<open>
  The exceptions that the library calls of \<^verbatim>\<open>ACOROTA.py\<close> can raise: a result is
  \<open>Inl\<close> of the exception or \<open>Inr\<close> of the value.
\<close>

datatype py_error = ValueError | IndexError | OverflowError | IllegalMonthError

section \<open>Calendar dates (\<^verbatim>\<open>datetime.date\<close>, \<^verbatim>\<open>calendar.monthrange\<close>)\<close>

text \<open>
  A \<^verbatim>\<open>datetime.date\<close> holds a year, a month and a day; equality and hashing
  (set membership) are on these three fields. The arithmetic below follows CPython's
  \<^verbatim>\<open>datetime.py\<close>: proleptic Gregorian ordinals with 1 January of year 1 as day 1.
\<close>

record date =
  date_year :: int
  date_month :: int
  date_day :: int

definition MINYEAR :: int where "MINYEAR = 1"
definition MAXYEAR :: int where "MAXYEAR = 9999"
definition MAXORDINAL :: int where "MAXORDINAL = 3652059"

definition DAYS_IN_MONTH :: "int list" where
  "DAYS_IN_MONTH = [-1, 31, 28, 31, 30, 31, 30, 31, 31, 30, 31, 30, 31]"

definition DAYS_BEFORE_MONTH :: "int list" where
  "DAYS_BEFORE_MONTH = [-1, 0, 31, 59, 90, 120, 151, 181, 212, 243, 273, 304, 334]"

definition is_leap :: "int \<Rightarrow> bool" where
  "is_leap y \<longleftrightarrow> y mod 4 = 0 \<and> (y mod 100 \<noteq> 0 \<or> y mod 400 = 0)"

definition days_before_year :: "int \<Rightarrow> int" where
  "days_before_year y0 = (let y = y0 - 1 in y * 365 + y div 4 - y div 100 + y div 400)"

definition days_in_month :: "int \<Rightarrow> int \<Rightarrow> int" where
  "days_in_month y m = (if m = 2 \<and> is_leap y then 29 else DAYS_IN_MONTH ! nat m)"

definition days_before_month :: "int \<Rightarrow> int \<Rightarrow> int" where
  "days_before_month y m = DAYS_BEFORE_MONTH ! nat m + (if m > 2 \<and> is_leap y then 1 else 0)"

definition ymd2ord :: "int \<Rightarrow> int \<Rightarrow> int \<Rightarrow> int" where
  "ymd2ord y m d = days_before_year y + days_before_month y m + d"

definition DI400Y :: int where "DI400Y = 146097"
definition DI100Y :: int where "DI100Y = 36524"
definition DI4Y :: int where "DI4Y = 1461"

definition ord2ymd :: "int \<Rightarrow> int \<times> int \<times> int" where
  "ord2ymd n0 =
    (let n = n0 - 1;
         n400 = n div DI400Y; n = n mod DI400Y;
         y = n400 * 400 + 1;
         n100 = n div DI100Y; n = n mod DI100Y;
         n4 = n div DI4Y; n = n mod DI4Y;
         n1 = n div 365; n = n mod 365;
         y = y + (n100 * 100 + n4 * 4 + n1)
     in if n1 = 4 \<or> n100 = 4 then (y - 1, 12, 31)
        else
          (let leapyear = (n1 = 3 \<and> (n4 \<noteq> 24 \<or> n100 = 3));
               m = (n + 50) div 32;
               preceding = DAYS_BEFORE_MONTH ! nat m + (if m > 2 \<and> leapyear then 1 else 0);
               (m, preceding) =
                  (if preceding > n
                   then (m - 1, preceding -
                           (DAYS_IN_MONTH ! nat (m - 1) + (if m - 1 = 2 \<and> leapyear then 1 else 0)))
                   else (m, preceding));
               n = n - preceding
           in (y, m, n + 1)))"

text \<open>The type's invariant: what \<^verbatim>\<open>_check_date_fields\<close> accepts.\<close>

definition valid_date :: "date \<Rightarrow> bool" where
  "valid_date d \<longleftrightarrow>
     MINYEAR \<le> date_year d \<and> date_year d \<le> MAXYEAR \<and>
     1 \<le> date_month d \<and> date_month d \<le> 12 \<and>
     1 \<le> date_day d \<and> date_day d \<le> days_in_month (date_year d) (date_month d)"

text \<open>\<^verbatim>\<open>datetime.date(year, month, day)\<close>: raises ValueError outside the invariant.\<close>

definition new_date :: "int \<Rightarrow> int \<Rightarrow> int \<Rightarrow> py_error + date" where
  "new_date y m d =
     (if \<not> (MINYEAR \<le> y \<and> y \<le> MAXYEAR) then Inl ValueError
      else if \<not> (1 \<le> m \<and> m \<le> 12) then Inl ValueError
      else if \<not> (1 \<le> d \<and> d \<le> days_in_month y m) then Inl ValueError
      else Inr \<lparr>date_year = y, date_month = m, date_day = d\<rparr>)"

definition toordinal :: "date \<Rightarrow> int" where
  "toordinal d = ymd2ord (date_year d) (date_month d) (date_day d)"

definition fromordinal :: "int \<Rightarrow> py_error + date" where
  "fromordinal n = (case ord2ymd n of (y, m, d) \<Rightarrow> new_date y m d)"

text \<open>\<^verbatim>\<open>d.weekday()\<close>: Monday is 0, Sunday is 6.\<close>

definition date_weekday :: "date \<Rightarrow> int" where
  "date_weekday d = (toordinal d + 6) mod 7"

text \<open>\<^verbatim>\<open>d + datetime.timedelta(days=i)\<close>.\<close>

definition date_add_days :: "date \<Rightarrow> int \<Rightarrow> py_error + date" where
  "date_add_days d i =
     (let o' = toordinal d + i
      in if 0 < o' \<and> o' \<le> MAXORDINAL then fromordinal o' else Inl OverflowError)"

text \<open>\<^verbatim>\<open>(d1 - d2).days\<close>.\<close>

definition date_diff_days :: "date \<Rightarrow> date \<Rightarrow> int" where
  "date_diff_days d1 d2 = toordinal d1 - toordinal d2"

text \<open>\<^verbatim>\<open>calendar.weekday\<close> and \<^verbatim>\<open>calendar.monthrange\<close>.\<close>

definition mdays :: "int list" where
  "mdays = [0, 31, 28, 31, 30, 31, 30, 31, 31, 30, 31, 30, 31]"

definition calendar_weekday :: "int \<Rightarrow> int \<Rightarrow> int \<Rightarrow> py_error + int" where
  "calendar_weekday y0 m d =
     (let y = (if \<not> (MINYEAR \<le> y0 \<and> y0 \<le> MAXYEAR) then 2000 + y0 mod 400 else y0)
      in case new_date y m d of Inl e \<Rightarrow> Inl e | Inr dt \<Rightarrow> Inr (date_weekday dt))"

definition monthrange :: "int \<Rightarrow> int \<Rightarrow> py_error + int \<times> int" where
  "monthrange y m =
     (if \<not> (1 \<le> m \<and> m \<le> 12) then Inl IllegalMonthError
      else case calendar_weekday y m 1 of
             Inl e \<Rightarrow> Inl e
           | Inr day1 \<Rightarrow> Inr (day1, mdays ! nat m + (if m = 2 \<and> is_leap y then 1 else 0)))"

section \<open>Formatting and parsing dates\<close>

definition digit_char :: "nat \<Rightarrow> char" where
  "digit_char k = ''0123456789'' ! (k mod 10)"

fun dec_digits :: "nat \<Rightarrow> string" where
  "dec_digits n = (if n < 10 then [digit_char n] else dec_digits (n div 10) @ [digit_char (n mod 10)])"

declare dec_digits.simps [simp del]

definition zfill :: "nat \<Rightarrow> string \<Rightarrow> string" where
  "zfill w s = replicate (w - length s) (CHR ''0'') @ s"

text \<open>
  \<^verbatim>\<open>d.strftime('%d/%m/%Y')\<close>. CPython hands the format to the C library. \<^verbatim>\<open>%d\<close> and
  \<^verbatim>\<open>%m\<close> are two digits, zero padded. \<^verbatim>\<open>%Y\<close> is the year in decimal; whether a year
  below 1000 is padded to four digits depends on the platform: glibc under CPython up to
  3.12 prints \<^verbatim>\<open>date(999, 1, 5)\<close> as \<^verbatim>\<open>05/01/999\<close>, other C libraries and later
  CPython versions print \<^verbatim>\<open>05/01/0999\<close>. The flag \<open>pad\<close> is that choice.
\<close>

definition strftime_Y :: "bool \<Rightarrow> int \<Rightarrow> string" where
  "strftime_Y pad y = (if pad then zfill 4 (dec_digits (nat y)) else dec_digits (nat y))"

definition strftime_dmY :: "bool \<Rightarrow> date \<Rightarrow> string" where
  "strftime_dmY pad d =
     zfill 2 (dec_digits (nat (date_day d))) @ ''/'' @
     zfill 2 (dec_digits (nat (date_month d))) @ ''/'' @
     strftime_Y pad (date_year d)"

text \<open>\<^verbatim>\<open>d.strftime('%A')\<close>, in the C locale.\<close>

definition DAYNAMES :: "string list" where
  "DAYNAMES = [''Monday'', ''Tuesday'', ''Wednesday'', ''Thursday'', ''Friday'', ''Saturday'', ''Sunday'']"

definition strftime_A :: "date \<Rightarrow> string" where
  "strftime_A d = DAYNAMES ! nat (date_weekday d)"

text \<open>
  \<^verbatim>\<open>datetime.datetime.strptime(s, '%d/%m/%Y').date()\<close>. \<^verbatim>\<open>_strptime\<close> compiles the format
  to the regular expression
  \<^verbatim>\<open>(?P<d>3[0-1]|[1-2]\d|0[1-9]|[1-9]| [1-9])/(?P<m>1[0-2]|0[1-9]|[1-9])/(?P<Y>\d\d\d\d)\<close>,
  matches it at the start of the string, rejects unconverted trailing data and builds the
  date, which validates the fields. Each group is followed by a character that no
  alternative of the group can consume, so the first alternative that matches is the one
  the match uses, and the functions below try the alternatives in their order.
  Strings are ASCII here, as the strings that \<open>strftime_dmY\<close> writes are.
\<close>

definition digit_val :: "char \<Rightarrow> int option" where
  "digit_val c = map_of (zip ''0123456789'' [0, 1, 2, 3, 4, 5, 6, 7, 8, 9]) c"

definition is_digit :: "char \<Rightarrow> bool" where
  "is_digit c \<longleftrightarrow> digit_val c \<noteq> None"

definition dv :: "char \<Rightarrow> int" where
  "dv c = (case digit_val c of Some k \<Rightarrow> k | None \<Rightarrow> 0)"

fun match_d :: "string \<Rightarrow> (int \<times> string) option" where
  "match_d (a # b # r) =
     (if a = CHR ''3'' \<and> (b = CHR ''0'' \<or> b = CHR ''1'') then Some (10 * dv a + dv b, r)
      else if (a = CHR ''1'' \<or> a = CHR ''2'') \<and> is_digit b then Some (10 * dv a + dv b, r)
      else if a = CHR ''0'' \<and> is_digit b \<and> b \<noteq> CHR ''0'' then Some (dv b, r)
      else if is_digit a \<and> a \<noteq> CHR ''0'' then Some (dv a, b # r)
      else if a = CHR '' '' \<and> is_digit b \<and> b \<noteq> CHR ''0'' then Some (dv b, r)
      else None)"
| "match_d [a] = (if is_digit a \<and> a \<noteq> CHR ''0'' then Some (dv a, []) else None)"
| "match_d [] = None"

fun match_m :: "string \<Rightarrow> (int \<times> string) option" where
  "match_m (a # b # r) =
     (if a = CHR ''1'' \<and> (b = CHR ''0'' \<or> b = CHR ''1'' \<or> b = CHR ''2'') then Some (10 * dv a + dv b, r)
      else if a = CHR ''0'' \<and> is_digit b \<and> b \<noteq> CHR ''0'' then Some (dv b, r)
      else if is_digit a \<and> a \<noteq> CHR ''0'' then Some (dv a, b # r)
      else None)"
| "match_m [a] = (if is_digit a \<and> a \<noteq> CHR ''0'' then Some (dv a, []) else None)"
| "match_m [] = None"

fun match_Y :: "string \<Rightarrow> (int \<times> string) option" where
  "match_Y (a # b # c # d # r) =
     (if is_digit a \<and> is_digit b \<and> is_digit c \<and> is_digit d
      then Some (1000 * dv a + 100 * dv b + 10 * dv c + dv d, r) else None)"
| "match_Y _ = None"

fun match_slash :: "string \<Rightarrow> string option" where
  "match_slash (a # r) = (if a = CHR ''/'' then Some r else None)"
| "match_slash [] = None"

definition strptime_dmY :: "string \<Rightarrow> py_error + date" where
  "strptime_dmY s =
     (case match_d s of None \<Rightarrow> Inl ValueError | Some (d, r1) \<Rightarrow>
     (case match_slash r1 of None \<Rightarrow> Inl ValueError | Some r2 \<Rightarrow>
     (case match_m r2 of None \<Rightarrow> Inl ValueError | Some (m, r3) \<Rightarrow>
     (case match_slash r3 of None \<Rightarrow> Inl ValueError | Some r4 \<Rightarrow>
     (case match_Y r4 of None \<Rightarrow> Inl ValueError | Some (y, r5) \<Rightarrow>
        if r5 \<noteq> [] then Inl ValueError else new_date y m d)))))"

section \<open>The staff registry and the schedule\<close>

text \<open>
  A staff member is the dictionary of \<^verbatim>\<open>staff_list\<close>; an entry is the dictionary built
  for each date, a row of the data frame that \<^verbatim>\<open>generate_rota\<close> returns.
  \<^verbatim>\<open>entry['Shift']\<close> starts as \<^verbatim>\<open>None\<close>.
\<close>

record staff_member =
  name :: string
  office_days :: "int list"
  holidays :: "date set"
  assigned_dates :: "date set"
  shift_count :: int

record entry =
  Date :: string
  Day :: string
  Shift :: "string option"
  Notes :: string

text \<open>\<^verbatim>\<open>sep.join(xs)\<close>\<close>

fun str_join :: "string \<Rightarrow> string list \<Rightarrow> string" where
  "str_join sep [] = []"
| "str_join sep [x] = x"
| "str_join sep (x # y # ys) = x @ sep @ str_join sep (y # ys)"

text \<open>\<^verbatim>\<open>min(...)\<close> of a sequence: ValueError when it is empty.\<close>

fun py_min :: "int list \<Rightarrow> py_error + int" where
  "py_min [] = Inl ValueError"
| "py_min (x # xs) = Inr (foldl min x xs)"

section \<open>Choosing among tied candidates\<close>

text \<open>
  \<^verbatim>\<open>random.choice(seq)\<close> raises IndexError on an empty sequence and returns
  \<^verbatim>\<open>seq[self._randbelow(len(seq))]\<close> otherwise. The generator is the sequence of the
  values it will draw: \<open>randbelow\<close> reduces the next one below its bound, so every
  behaviour of the generator is some sequence and every sequence is a behaviour.
\<close>

type_synonym rng = "nat \<Rightarrow> nat"

definition randbelow :: "rng \<Rightarrow> nat \<Rightarrow> nat \<times> rng" where
  "randbelow g n = (g 0 mod n, (\<lambda>k. g (Suc k)))"

definition random_choice :: "rng \<Rightarrow> 'a list \<Rightarrow> py_error + 'a \<times> rng" where
  "random_choice g seq =
     (if length seq = 0 then Inl IndexError
      else (case randbelow g (length seq) of (k, g') \<Rightarrow> Inr (seq ! k, g')))"

text \<open>The deterministic policy: always the first candidate in listed order.\<close>

definition first_choice :: "'g \<Rightarrow> 'a list \<Rightarrow> py_error + 'a \<times> 'g" where
  "first_choice g seq = (case seq of [] \<Rightarrow> Inl IndexError | x # _ \<Rightarrow> Inr (x, g))"

section \<open>The assignment engine (\<^verbatim>\<open>generate_rota\<close>)\<close>

text \<open>
  The loop's state: the staff list (its dictionaries are mutated in place), the two
  locals that live across iterations, and the generator. The comprehensions of the source
  build lists of references to the dictionaries of \<^verbatim>\<open>staff\<close>; a reference is the
  dictionary's position in \<^verbatim>\<open>staff\<close>, so that two members with equal fields stay two
  objects.
\<close>

record 'g rota_state =
  staff :: "staff_member list"
  last_assigned_staff :: "string option"
  rota_data :: "entry list"
  rng_state :: 'g

text \<open>Lines 62-67: the staff available on this weekday, not on holiday, not yet assigned that day.\<close>

definition available_on :: "staff_member list \<Rightarrow> date \<Rightarrow> nat list" where
  "available_on stf date =
     (let weekday = date_weekday date
      in [i \<leftarrow> [0..<length stf].
            weekday \<in> set (office_days (stf ! i))
            \<and> date \<notin> holidays (stf ! i)
            \<and> date \<notin> assigned_dates (stf ! i)])"

text \<open>Lines 76-79: the fallback drops the last condition.\<close>

definition back_to_back_on :: "staff_member list \<Rightarrow> date \<Rightarrow> nat list" where
  "back_to_back_on stf date =
     (let weekday = date_weekday date
      in [i \<leftarrow> [0..<length stf].
            weekday \<in> set (office_days (stf ! i)) \<and> date \<notin> holidays (stf ! i)])"

text \<open>Lines 69-72 and again 80-83: leave out the member of the previous working day, if anyone is left.\<close>

definition avoid_last :: "staff_member list \<Rightarrow> string option \<Rightarrow> nat list \<Rightarrow> nat list" where
  "avoid_last stf last_assigned pool =
     (case last_assigned of
        None \<Rightarrow> pool
      | Some l \<Rightarrow>
          (let filtered = [i \<leftarrow> pool. name (stf ! i) \<noteq> l]
           in if filtered \<noteq> [] then filtered else pool))"

text \<open>
  Lines 85-91 and again 96-102: the members of the pool with the fewest shifts, one of
  them chosen, the entry and the chosen member updated.
\<close>

definition assign_min ::
  "('g \<Rightarrow> nat list \<Rightarrow> py_error + nat \<times> 'g) \<Rightarrow> date \<Rightarrow> nat list \<Rightarrow> entry \<Rightarrow> 'g rota_state
     \<Rightarrow> py_error + entry \<times> 'g rota_state" where
  "assign_min choice date pool entry st =
     (case py_min (map (\<lambda>i. shift_count (staff st ! i)) pool) of
        Inl e \<Rightarrow> Inl e
      | Inr min_shifts \<Rightarrow>
          (let candidates = [i \<leftarrow> pool. shift_count (staff st ! i) = min_shifts]
           in (case choice (rng_state st) candidates of
                 Inl e \<Rightarrow> Inl e
               | Inr (selected, g') \<Rightarrow>
                   (let s = staff st ! selected
                    in Inr (entry\<lparr>Shift := Some (name s)\<rparr>,
                            st\<lparr>staff := (staff st)[selected :=
                                   s\<lparr>assigned_dates := insert date (assigned_dates s),
                                     shift_count := shift_count s + 1\<rparr>],
                               last_assigned_staff := Some (name s),
                               rng_state := g'\<rparr>)))))"

text \<open>Lines 50-52 and 105-110: the names of the staff on holiday that date, for the notes.\<close>

definition holiday_names_on :: "staff_member list \<Rightarrow> date \<Rightarrow> string list" where
  "holiday_names_on stf date = [name s. s \<leftarrow> stf, date \<in> holidays s]"

text \<open>
  One iteration of the loop of \<^verbatim>\<open>generate_rota\<close> (lines 40-112). \<open>choice\<close> stands for
  \<^verbatim>\<open>random.choice\<close>; \<open>pad\<close> is the platform's treatment of \<^verbatim>\<open>%Y\<close> (see
  \<open>strftime_dmY\<close>).
\<close>

definition rota_step ::
  "('g \<Rightarrow> nat list \<Rightarrow> py_error + nat \<times> 'g) \<Rightarrow> bool \<Rightarrow> date set \<Rightarrow> date \<Rightarrow> 'g rota_state
     \<Rightarrow> py_error + 'g rota_state" where
  "rota_step choice pad closure_days date st =
     (let entry = \<lparr>Date = strftime_dmY pad date, Day = strftime_A date, Shift = None, Notes = []\<rparr>
      in if date \<in> closure_days then
           (let note = ''University Closure'';
                holiday_names = holiday_names_on (staff st) date;
                note = (if holiday_names \<noteq> []
                        then note @ '' | On Holiday: '' @ str_join '', '' holiday_names else note);
                entry = entry\<lparr>Notes := note\<rparr>;
                entry = entry\<lparr>Shift := Some ''CLOSED''\<rparr>
            in Inr (st\<lparr>last_assigned_staff := None, rota_data := rota_data st @ [entry]\<rparr>))
         else
           (let available_staff = available_on (staff st) date;
                available_staff = avoid_last (staff st) (last_assigned_staff st) available_staff
            in (case (if available_staff = [] then
                        (let back_to_back_candidates = back_to_back_on (staff st) date;
                             back_to_back_candidates =
                               avoid_last (staff st) (last_assigned_staff st) back_to_back_candidates
                         in if back_to_back_candidates \<noteq> []
                            then assign_min choice date back_to_back_candidates entry st
                            else Inr (entry\<lparr>Shift := Some ''UNASSIGNED''\<rparr>,
                                      st\<lparr>last_assigned_staff := None\<rparr>))
                      else assign_min choice date available_staff entry st) of
                  Inl e \<Rightarrow> Inl e
                | Inr (entry, st) \<Rightarrow>
                    (let holiday_names = holiday_names_on (staff st) date;
                         entry =
                           (if holiday_names \<noteq> [] then
                              (if Notes entry \<noteq> []
                               then entry\<lparr>Notes := Notes entry @ '' | On Holiday: ''
                                                      @ str_join '', '' holiday_names\<rparr>
                               else entry\<lparr>Notes := ''On Holiday: '' @ str_join '', '' holiday_names\<rparr>)
                            else entry)
                     in Inr (st\<lparr>rota_data := rota_data st @ [entry]\<rparr>)))))"

text \<open>The loop over the dates; an exception ends it.\<close>

fun rota_loop ::
  "('g \<Rightarrow> nat list \<Rightarrow> py_error + nat \<times> 'g) \<Rightarrow> bool \<Rightarrow> date set \<Rightarrow> date list \<Rightarrow> 'g rota_state
     \<Rightarrow> py_error + 'g rota_state" where
  "rota_loop choice pad closure_days [] st = Inr st"
| "rota_loop choice pad closure_days (date # dates) st =
     (case rota_step choice pad closure_days date st of
        Inl e \<Rightarrow> Inl e
      | Inr st' \<Rightarrow> rota_loop choice pad closure_days dates st')"

definition init_state :: "'g \<Rightarrow> staff_member list \<Rightarrow> 'g rota_state" where
  "init_state g staff_list =
     \<lparr>staff = staff_list, last_assigned_staff = None, rota_data = [], rng_state = g\<rparr>"

text \<open>
  \<^verbatim>\<open>generate_rota(dates, staff, closure_days)\<close> with the choice function as a parameter.
  The final state holds the rows of the data frame (\<open>rota_data\<close>) and the staff list as
  the run leaves it.
\<close>

definition generate_rota_with ::
  "('g \<Rightarrow> nat list \<Rightarrow> py_error + nat \<times> 'g) \<Rightarrow> bool \<Rightarrow> 'g \<Rightarrow> date list \<Rightarrow> staff_member list
     \<Rightarrow> date set \<Rightarrow> py_error + 'g rota_state" where
  "generate_rota_with choice pad g dates staff_list closure_days =
     rota_loop choice pad closure_days dates (init_state g staff_list)"

definition generate_rota ::
  "bool \<Rightarrow> rng \<Rightarrow> date list \<Rightarrow> staff_member list \<Rightarrow> date set \<Rightarrow> py_error + rng rota_state" where
  "generate_rota = generate_rota_with random_choice"

text \<open>Lines 175-177: the reset before a run.\<close>

definition reset_staff :: "staff_member list \<Rightarrow> staff_member list" where
  "reset_staff staff_list = map (\<lambda>s. s\<lparr>assigned_dates := {}, shift_count := 0\<rparr>) staff_list"

section \<open>The calendar generator (\<^verbatim>\<open>generate_dates\<close>)\<close>

fun dates_loop :: "date \<Rightarrow> int list \<Rightarrow> date list \<Rightarrow> py_error + date list" where
  "dates_loop start_date [] dates = Inr dates"
| "dates_loop start_date (i # is) dates =
     (case date_add_days start_date i of
        Inl e \<Rightarrow> Inl e
      | Inr d \<Rightarrow> dates_loop start_date is (if date_weekday d < 5 then dates @ [d] else dates))"

text \<open>\<^verbatim>\<open>range(n)\<close>\<close>

definition py_range :: "int \<Rightarrow> int list" where
  "py_range n = map int [0..<nat n]"

definition generate_dates :: "int \<Rightarrow> int \<Rightarrow> py_error + date list" where
  "generate_dates y m =
     (case monthrange y m of
        Inl e \<Rightarrow> Inl e
      | Inr (_, num_days) \<Rightarrow>
          (case new_date y m 1 of
             Inl e \<Rightarrow> Inl e
           | Inr start_date \<Rightarrow>
               (case new_date y m num_days of
                  Inl e \<Rightarrow> Inl e
                | Inr end_date \<Rightarrow>
                    dates_loop start_date (py_range (date_diff_days end_date start_date + 1)) [])))"

section \<open>The validator (\<^verbatim>\<open>validate_shifts\<close>)\<close>

text \<open>
  A warning records which of the two \<^verbatim>\<open>warnings.append\<close> calls made it and with what;
  \<open>warning_text\<close> is the string the call builds.
\<close>

datatype warning = Invalid_date_format string | Assigned_on_holiday string string

definition warning_text :: "warning \<Rightarrow> string" where
  "warning_text w =
     (case w of
        Invalid_date_format ds \<Rightarrow> ''Invalid date format in '' @ ds
      | Assigned_on_holiday n ds \<Rightarrow> n @ '' assigned on holiday: '' @ ds)"

definition validate_row :: "staff_member list \<Rightarrow> entry \<Rightarrow> warning list" where
  "validate_row stf row =
     (case strptime_dmY (Date row) of
        Inl e \<Rightarrow> [Invalid_date_format (Date row)]
      | Inr date \<Rightarrow>
          [Assigned_on_holiday (name s) (Date row).
             s \<leftarrow> stf, Shift row = Some (name s) \<and> date \<in> holidays s])"

definition validate_warnings :: "entry list \<Rightarrow> staff_member list \<Rightarrow> warning list" where
  "validate_warnings df stf = concat (map (validate_row stf) df)"

definition validate_shifts :: "entry list \<Rightarrow> staff_member list \<Rightarrow> string list" where
  "validate_shifts df stf = map warning_text (validate_warnings df stf)"

section \<open>Notions used to state the properties\<close>

text \<open>
  What a choice function must do for the engine to run: on a non-empty list it returns
  one of its elements. \<^verbatim>\<open>random.choice\<close> and the first-candidate policy both do.
\<close>

definition choice_sound :: "('g \<Rightarrow> nat list \<Rightarrow> py_error + nat \<times> 'g) \<Rightarrow> bool" where
  "choice_sound choice \<longleftrightarrow>
     (\<forall>g xs. xs \<noteq> [] \<longrightarrow> (\<exists>x g'. choice g xs = Inr (x, g') \<and> x \<in> set xs))"

text \<open>
  The pool a date is decided from: the primary pool, or the fallback pool when the primary
  pool is empty (\<open>base_pool\<close>), after the consecutive-avoidance filter (\<open>day_pool\<close>).
\<close>

definition base_pool :: "staff_member list \<Rightarrow> date \<Rightarrow> nat list" where
  "base_pool stf date =
     (if available_on stf date \<noteq> [] then available_on stf date else back_to_back_on stf date)"

definition day_pool :: "staff_member list \<Rightarrow> string option \<Rightarrow> date \<Rightarrow> nat list" where
  "day_pool stf last_assigned date = avoid_last stf last_assigned (base_pool stf date)"

text \<open>The staff list after member \<open>j\<close> has been given the date (lines 89-90 and 100-101).\<close>

definition assign_to :: "date \<Rightarrow> nat \<Rightarrow> staff_member list \<Rightarrow> staff_member list" where
  "assign_to date j stf =
     stf[j := (stf ! j)\<lparr>assigned_dates := insert date (assigned_dates (stf ! j)),
                       shift_count := shift_count (stf ! j) + 1\<rparr>]"

text \<open>The entry of a closure day, and the entry of any other day given its shift.\<close>

definition closed_entry :: "bool \<Rightarrow> staff_member list \<Rightarrow> date \<Rightarrow> entry" where
  "closed_entry pad stf date =
     \<lparr>Date = strftime_dmY pad date, Day = strftime_A date, Shift = Some ''CLOSED'',
      Notes = ''University Closure'' @
        (if holiday_names_on stf date \<noteq> []
         then '' | On Holiday: '' @ str_join '', '' (holiday_names_on stf date) else [])\<rparr>"

definition open_entry :: "bool \<Rightarrow> staff_member list \<Rightarrow> date \<Rightarrow> string \<Rightarrow> entry" where
  "open_entry pad stf date sh =
     \<lparr>Date = strftime_dmY pad date, Day = strftime_A date, Shift = Some sh,
      Notes = (if holiday_names_on stf date \<noteq> []
               then ''On Holiday: '' @ str_join '', '' (holiday_names_on stf date) else [])\<rparr>"

text \<open>
  Eligibility of a staff member on a date: the three conditions of the primary pool
  (\<open>eligible_today\<close>), and the two that the fallback pool keeps (\<open>eligible\<close>).
\<close>

definition eligible :: "staff_member \<Rightarrow> date \<Rightarrow> bool" where
  "eligible s date \<longleftrightarrow> date_weekday date \<in> set (office_days s) \<and> date \<notin> holidays s"

definition eligible_today :: "staff_member \<Rightarrow> date \<Rightarrow> bool" where
  "eligible_today s date \<longleftrightarrow> eligible s date \<and> date \<notin> assigned_dates s"

text \<open>The sentinels of the \<^verbatim>\<open>Shift\<close> column are not names of staff.\<close>

definition no_sentinel_names :: "staff_member list \<Rightarrow> bool" where
  "no_sentinel_names stf \<longleftrightarrow>
     ''CLOSED'' \<notin> set (map name stf) \<and> ''UNASSIGNED'' \<notin> set (map name stf)"

text \<open>The number of entries that carry a staff name.\<close>

definition assigned_entries :: "entry list \<Rightarrow> entry list" where
  "assigned_entries df =
     filter (\<lambda>e. Shift e \<noteq> Some ''CLOSED'' \<and> Shift e \<noteq> Some ''UNASSIGNED'') df"

text \<open>
  Two invariants of the loop: every member's assigned dates are finitely many, among the
  dates processed so far, and as many as the shift count; and the shift counts add up to
  the number of entries that carry a staff name.
\<close>

definition counts_ok :: "date set \<Rightarrow> staff_member list \<Rightarrow> bool" where
  "counts_ok D stf \<longleftrightarrow>
     (\<forall>s \<in> set stf. finite (assigned_dates s) \<and> assigned_dates s \<subseteq> D
                     \<and> int (card (assigned_dates s)) = shift_count s)"

definition load_balance :: "'g rota_state \<Rightarrow> bool" where
  "load_balance st \<longleftrightarrow>
     no_sentinel_names (staff st)
     \<and> sum_list (map shift_count (staff st)) = int (length (assigned_entries (rota_data st)))"

text \<open>
  The month and day that \<open>ord2ymd\<close> computes from the day of the year (its last five
  lines), named so that it can be reasoned about on its own.
\<close>

definition month_day :: "bool \<Rightarrow> int \<Rightarrow> int \<times> int" where
  "month_day leapyear n =
     (let m = (n + 50) div 32;
          preceding = DAYS_BEFORE_MONTH ! nat m + (if m > 2 \<and> leapyear then 1 else 0);
          (m, preceding) =
             (if preceding > n
              then (m - 1, preceding -
                      (DAYS_IN_MONTH ! nat (m - 1) + (if m - 1 = 2 \<and> leapyear then 1 else 0)))
              else (m, preceding));
          n = n - preceding
      in (m, n + 1))"

text \<open>\<^verbatim>\<open>d1 < d2\<close> on dates compares year, month and day in that order.\<close>

definition date_lt :: "date \<Rightarrow> date \<Rightarrow> bool" where
  "date_lt a b \<longleftrightarrow>
     date_year a < date_year b
     \<or> (date_year a = date_year b
         \<and> (date_month a < date_month b
             \<or> (date_month a = date_month b \<and> date_day a < date_day b)))"

text \<open>
  The calendar days of a month in ascending order, and the working days among them
  (Monday to Friday), as the specification describes them.
\<close>

definition month_dates :: "int \<Rightarrow> int \<Rightarrow> date list" where
  "month_dates y m =
     map (\<lambda>d. \<lparr>date_year = y, date_month = m, date_day = d\<rparr>) [1..days_in_month y m]"

definition working_dates :: "int \<Rightarrow> int \<Rightarrow> date list" where
  "working_dates y m = filter (\<lambda>d. date_weekday d < 5) (month_dates y m)"

section \<open>Concrete inputs\<close>

text \<open>The roster of the application (lines 147-153), before any holiday is selected.\<close>

definition staff_list :: "staff_member list" where
  "staff_list =
     [\<lparr>name = ''John'', office_days = [1, 2, 4], holidays = {}, assigned_dates = {}, shift_count = 0\<rparr>,
      \<lparr>name = ''Jane'', office_days = [0, 1, 2], holidays = {}, assigned_dates = {}, shift_count = 0\<rparr>,
      \<lparr>name = ''Cheryl'', office_days = [1, 2, 4], holidays = {}, assigned_dates = {}, shift_count = 0\<rparr>,
      \<lparr>name = ''Claire'', office_days = [2, 3, 4], holidays = {}, assigned_dates = {}, shift_count = 0\<rparr>,
      \<lparr>name = ''Sarmad'', office_days = [0, 1, 3], holidays = {}, assigned_dates = {}, shift_count = 0\<rparr>]"

text \<open>A generator whose every draw is 0, and the days of June 2026 (the 1st is a Monday).\<close>

definition zero_draws :: rng where
  "zero_draws = (\<lambda>_. 0)"

definition june_2026 :: "int \<Rightarrow> date" where
  "june_2026 d = \<lparr>date_year = 2026, date_month = 6, date_day = d\<rparr>"

definition first_week :: "date list" where
  "first_week = [june_2026 1, june_2026 2, june_2026 3, june_2026 4, june_2026 5]"

text \<open>
  The roster with holidays selected so that only Sarmad can work on Monday and Tuesday
  and only Claire on Wednesday: Jane is away from the 1st to the 3rd, John and Cheryl on
  the 2nd and the 3rd.
\<close>

definition away_roster :: "staff_member list" where
  "away_roster =
     [\<lparr>name = ''John'', office_days = [1, 2, 4], holidays = {june_2026 2, june_2026 3},
       assigned_dates = {}, shift_count = 0\<rparr>,
      \<lparr>name = ''Jane'', office_days = [0, 1, 2], holidays = {june_2026 1, june_2026 2, june_2026 3},
       assigned_dates = {}, shift_count = 0\<rparr>,
      \<lparr>name = ''Cheryl'', office_days = [1, 2, 4], holidays = {june_2026 2, june_2026 3},
       assigned_dates = {}, shift_count = 0\<rparr>,
      \<lparr>name = ''Claire'', office_days = [2, 3, 4], holidays = {}, assigned_dates = {}, shift_count = 0\<rparr>,
      \<lparr>name = ''Sarmad'', office_days = [0, 1, 3], holidays = {}, assigned_dates = {}, shift_count = 0\<rparr>]"

text \<open>The state of that run before Thursday the 4th is processed, and the state after.\<close>

definition before_thursday :: "rng rota_state" where
  "before_thursday =
     (case rota_loop random_choice False {} [june_2026 1, june_2026 2, june_2026 3]
             (init_state zero_draws away_roster) of
        Inr st \<Rightarrow> st
      | Inl e \<Rightarrow> init_state zero_draws away_roster)"

definition after_thursday :: "rng rota_state" where
  "after_thursday =
     (case rota_step random_choice False {} (june_2026 4) before_thursday of
        Inr st \<Rightarrow> st
      | Inl e \<Rightarrow> before_thursday)"

text \<open>
  The run of the application's roster, nobody on holiday and no closure day: the state
  before Wednesday the 3rd is processed, and the state after.
\<close>

definition before_wednesday :: "rng rota_state" where
  "before_wednesday =
     (case rota_loop random_choice False {} [june_2026 1, june_2026 2]
             (init_state zero_draws staff_list) of
        Inr st \<Rightarrow> st
      | Inl e \<Rightarrow> init_state zero_draws staff_list)"

definition after_wednesday :: "rng rota_state" where
  "after_wednesday =
     (case rota_step random_choice False {} (june_2026 3) before_wednesday of
        Inr st \<Rightarrow> st
      | Inl e \<Rightarrow> before_wednesday)"

text \<open>A Monday in a year below 1000.\<close>

definition jan_999 :: date where
  "jan_999 = \<lparr>date_year = 999, date_month = 1, date_day = 7\<rparr>"

definition year_999_run :: "rng rota_state" where
  "year_999_run =
     (case generate_rota False zero_draws [jan_999] staff_list {} of
        Inr st \<Rightarrow> st
      | Inl e \<Rightarrow> init_state zero_draws staff_list)"

section \<open>The engine: one step and the loop\<close>

lemma choice_sound_random: "choice_sound random_choice"
  by (auto simp: choice_sound_def random_choice_def randbelow_def)

lemma choice_sound_first: "choice_sound first_choice"
  by (auto simp: choice_sound_def first_choice_def split: list.splits)

lemma foldl_min_least: "foldl min x xs \<in> set (x # xs) \<and> (\<forall>y \<in> set (x # xs). foldl min x xs \<le> (y::int))"
proof (induction xs arbitrary: x)
  case Nil
  show ?case by simp
next
  case (Cons a xs)
  from Cons.IH [of "min x a"] show ?case
    by (auto simp: min_def split: if_splits)
qed

lemma py_min_ok:
  assumes "xs \<noteq> []"
  shows "\<exists>m. py_min xs = Inr m \<and> m \<in> set xs \<and> (\<forall>y \<in> set xs. m \<le> y)"
proof (cases xs)
  case Nil
  with assms show ?thesis by simp
next
  case (Cons x ys)
  with foldl_min_least [of x ys] show ?thesis by simp
qed

lemma avoid_last_empty [simp]: "avoid_last stf l pool = [] \<longleftrightarrow> pool = []"
  by (auto simp: avoid_last_def Let_def split: option.splits)

lemma avoid_last_subset: "set (avoid_last stf l pool) \<subseteq> set pool"
  by (auto simp: avoid_last_def Let_def split: option.splits)

lemma assign_min_ok:
  assumes cs: "choice_sound choice" and ne: "pool \<noteq> []"
  shows "\<exists>j g'. j \<in> set pool \<and> (\<forall>i \<in> set pool. shift_count (staff st ! j) \<le> shift_count (staff st ! i))
           \<and> assign_min choice date pool entry st =
               Inr (entry\<lparr>Shift := Some (name (staff st ! j))\<rparr>,
                    st\<lparr>staff := assign_to date j (staff st),
                       last_assigned_staff := Some (name (staff st ! j)),
                       rng_state := g'\<rparr>)"
proof -
  let ?cs = "map (\<lambda>i. shift_count (staff st ! i)) pool"
  from ne have "?cs \<noteq> []" by simp
  from py_min_ok [OF this] obtain m where
    m: "py_min ?cs = Inr m" "m \<in> set ?cs" "\<forall>y \<in> set ?cs. m \<le> y" by blast
  let ?cand = "[i \<leftarrow> pool. shift_count (staff st ! i) = m]"
  from m(2) have "?cand \<noteq> []" by (auto simp: filter_empty_conv)
  with cs obtain j g' where ch: "choice (rng_state st) ?cand = Inr (j, g')" "j \<in> set ?cand"
    unfolding choice_sound_def by blast
  from ch(2) have j: "j \<in> set pool" "shift_count (staff st ! j) = m" by auto
  with m(3) have least: "\<forall>i \<in> set pool. shift_count (staff st ! j) \<le> shift_count (staff st ! i)"
    by auto
  have "assign_min choice date pool entry st =
               Inr (entry\<lparr>Shift := Some (name (staff st ! j))\<rparr>,
                    st\<lparr>staff := assign_to date j (staff st),
                       last_assigned_staff := Some (name (staff st ! j)),
                       rng_state := g'\<rparr>)"
    by (simp add: assign_min_def m(1) ch(1) Let_def assign_to_def)
  with j(1) least show ?thesis by blast
qed

lemma rota_step_closed:
  assumes "date \<in> closure_days"
  shows "rota_step choice pad closure_days date st =
           Inr (st\<lparr>last_assigned_staff := None,
                  rota_data := rota_data st @ [closed_entry pad (staff st) date]\<rparr>)"
  using assms by (simp add: rota_step_def Let_def closed_entry_def)

lemma map_update_same: "f x = f (xs ! j) \<Longrightarrow> map f (xs[j := x]) = map f xs"
  by (induction xs arbitrary: j) (auto split: nat.splits)

lemma length_assign_to [simp]: "length (assign_to date j stf) = length stf"
  by (simp add: assign_to_def)

lemma map_name_assign_to [simp]: "map name (assign_to date j stf) = map name stf"
  by (simp add: assign_to_def map_update_same)

lemma map_holidays_assign_to [simp]: "map holidays (assign_to date j stf) = map holidays stf"
  by (simp add: assign_to_def map_update_same)

lemma map_office_days_assign_to [simp]: "map office_days (assign_to date j stf) = map office_days stf"
  by (simp add: assign_to_def map_update_same)

lemma holiday_names_assign_to [simp]:
  "holiday_names_on (assign_to date j stf) d = holiday_names_on stf d"
  by (simp add: holiday_names_on_def assign_to_def map_update_same)

lemma day_pool_empty [simp]: "day_pool stf l date = [] \<longleftrightarrow> back_to_back_on stf date = []"
proof -
  have "set (available_on stf date) \<subseteq> set (back_to_back_on stf date)"
    by (auto simp: available_on_def back_to_back_on_def Let_def)
  hence "back_to_back_on stf date = [] \<Longrightarrow> available_on stf date = []" by auto
  thus ?thesis by (auto simp: day_pool_def base_pool_def)
qed

lemma rota_step_unassigned:
  assumes "date \<notin> closure_days" and "day_pool (staff st) (last_assigned_staff st) date = []"
  shows "rota_step choice pad closure_days date st =
           Inr (st\<lparr>last_assigned_staff := None,
                  rota_data := rota_data st @ [open_entry pad (staff st) date ''UNASSIGNED'']\<rparr>)"
proof -
  from assms(2) have b: "back_to_back_on (staff st) date = []" by simp
  hence a: "available_on (staff st) date = []"
    using assms(2) by (auto simp: day_pool_def base_pool_def split: if_splits)
  show ?thesis using assms(1) a b
    by (simp add: rota_step_def Let_def open_entry_def)
qed

lemma rota_step_assigned:
  assumes cs: "choice_sound choice" and "date \<notin> closure_days"
    and ne: "day_pool (staff st) (last_assigned_staff st) date \<noteq> []"
  shows "\<exists>j g'. j \<in> set (day_pool (staff st) (last_assigned_staff st) date)
           \<and> (\<forall>i \<in> set (day_pool (staff st) (last_assigned_staff st) date).
                 shift_count (staff st ! j) \<le> shift_count (staff st ! i))
           \<and> rota_step choice pad closure_days date st =
               Inr (st\<lparr>staff := assign_to date j (staff st),
                      last_assigned_staff := Some (name (staff st ! j)),
                      rng_state := g',
                      rota_data := rota_data st @ [open_entry pad (staff st) date (name (staff st ! j))]\<rparr>)"
proof -
  let ?pool = "day_pool (staff st) (last_assigned_staff st) date"
  let ?entry = "\<lparr>Date = strftime_dmY pad date, Day = strftime_A date, Shift = None, Notes = []\<rparr>"
  from assign_min_ok [OF cs ne, of st date ?entry] obtain j g' where
    j: "j \<in> set ?pool"
       "\<forall>i \<in> set ?pool. shift_count (staff st ! j) \<le> shift_count (staff st ! i)"
       "assign_min choice date ?pool ?entry st =
               Inr (?entry\<lparr>Shift := Some (name (staff st ! j))\<rparr>,
                    st\<lparr>staff := assign_to date j (staff st),
                       last_assigned_staff := Some (name (staff st ! j)),
                       rng_state := g'\<rparr>)" by blast
  have "rota_step choice pad closure_days date st =
               Inr (st\<lparr>staff := assign_to date j (staff st),
                      last_assigned_staff := Some (name (staff st ! j)),
                      rng_state := g',
                      rota_data := rota_data st @ [open_entry pad (staff st) date (name (staff st ! j))]\<rparr>)"
  proof (cases "available_on (staff st) date = []")
    case True
    with ne j(3) assms(2) show ?thesis
      by (simp add: rota_step_def Let_def day_pool_def base_pool_def open_entry_def)
  next
    case False
    with ne j(3) assms(2) show ?thesis
      by (simp add: rota_step_def Let_def day_pool_def base_pool_def open_entry_def)
  qed
  with j(1,2) show ?thesis by blast
qed

lemma rota_step_total:
  assumes "choice_sound choice"
  shows "\<exists>st'. rota_step choice pad closure_days date st = Inr st'"
proof (cases "date \<in> closure_days")
  case True
  thus ?thesis by (simp add: rota_step_closed)
next
  case False
  show ?thesis
  proof (cases "day_pool (staff st) (last_assigned_staff st) date = []")
    case True
    with False show ?thesis by (simp add: rota_step_unassigned)
  next
    case ne: False
    from rota_step_assigned [OF assms False ne] show ?thesis by blast
  qed
qed

lemma rota_loop_append:
  "rota_loop choice pad cl (xs @ ys) st =
     (case rota_loop choice pad cl xs st of Inl e \<Rightarrow> Inl e | Inr st' \<Rightarrow> rota_loop choice pad cl ys st')"
  by (induction xs arbitrary: st) (auto split: sum.splits)

lemma rota_loop_total:
  assumes "choice_sound choice"
  shows "\<exists>st'. rota_loop choice pad cl dates st = Inr st'"
proof (induction dates arbitrary: st)
  case Nil
  show ?case by simp
next
  case (Cons d ds)
  from rota_step_total [OF assms] obtain st1 where "rota_step choice pad cl d st = Inr st1" by blast
  with Cons [of st1] show ?case by simp
qed

text \<open>Splitting a run at date k.\<close>

lemma run_at:
  assumes cs: "choice_sound choice" and k: "k < length dates"
  shows "\<exists>st st' fin. rota_loop choice pad cl (take k dates) st0 = Inr st
           \<and> rota_step choice pad cl (dates ! k) st = Inr st'
           \<and> rota_loop choice pad cl (take (Suc k) dates) st0 = Inr st'
           \<and> rota_loop choice pad cl (drop (Suc k) dates) st' = Inr fin
           \<and> rota_loop choice pad cl dates st0 = Inr fin"
proof -
  from rota_loop_total [OF cs] obtain st where st: "rota_loop choice pad cl (take k dates) st0 = Inr st" by blast
  from rota_step_total [OF cs] obtain st' where st': "rota_step choice pad cl (dates ! k) st = Inr st'" by blast
  from rota_loop_total [OF cs] obtain fin where fin: "rota_loop choice pad cl (drop (Suc k) dates) st' = Inr fin" by blast
  have t: "take (Suc k) dates = take k dates @ [dates ! k]"
    using k by (simp add: take_Suc_conv_app_nth)
  have s1: "rota_loop choice pad cl (take (Suc k) dates) st0 = Inr st'"
    by (simp add: t rota_loop_append st st')
  have "dates = take (Suc k) dates @ drop (Suc k) dates" by simp
  hence "rota_loop choice pad cl dates st0 = rota_loop choice pad cl (take (Suc k) dates @ drop (Suc k) dates) st0"
    by simp
  also have "\<dots> = Inr fin" by (simp only: rota_loop_append s1 sum.case fin)
  finally show ?thesis using st st' s1 fin by blast
qed

text \<open>What a step leaves alone, and what it appends.\<close>

lemma rota_step_shape:
  assumes cs: "choice_sound choice" and step: "rota_step choice pad cl date st = Inr st'"
  shows "map name (staff st') = map name (staff st)
       \<and> map holidays (staff st') = map holidays (staff st)
       \<and> map office_days (staff st') = map office_days (staff st)
       \<and> (\<exists>e. rota_data st' = rota_data st @ [e] \<and> Date e = strftime_dmY pad date)"
proof (cases "date \<in> cl")
  case True
  with step show ?thesis by (auto simp: rota_step_closed closed_entry_def)
next
  case False
  show ?thesis
  proof (cases "day_pool (staff st) (last_assigned_staff st) date = []")
    case True
    with False step show ?thesis by (auto simp: rota_step_unassigned open_entry_def)
  next
    case ne: False
    from rota_step_assigned [OF cs False ne, of pad] step show ?thesis
      by (auto simp: open_entry_def)
  qed
qed

lemma rota_loop_shape:
  assumes cs: "choice_sound choice"
  shows "rota_loop choice pad cl dates st = Inr st' \<Longrightarrow>
         map name (staff st') = map name (staff st)
       \<and> map holidays (staff st') = map holidays (staff st)
       \<and> map office_days (staff st') = map office_days (staff st)
       \<and> (\<exists>es. rota_data st' = rota_data st @ es \<and> map Date es = map (strftime_dmY pad) dates)"
proof (induction dates arbitrary: st)
  case Nil
  thus ?case by simp
next
  case (Cons d ds)
  from rota_step_total [OF cs] obtain st1 where s1: "rota_step choice pad cl d st = Inr st1" by blast
  with Cons.prems have l: "rota_loop choice pad cl ds st1 = Inr st'" by simp
  from rota_step_shape [OF cs s1] obtain e where
    a: "map name (staff st1) = map name (staff st)" "map holidays (staff st1) = map holidays (staff st)"
       "map office_days (staff st1) = map office_days (staff st)"
       "rota_data st1 = rota_data st @ [e]" "Date e = strftime_dmY pad d" by blast
  from Cons.IH [OF l] obtain es where
    b: "map name (staff st') = map name (staff st1)" "map holidays (staff st') = map holidays (staff st1)"
       "map office_days (staff st') = map office_days (staff st1)"
       "rota_data st' = rota_data st1 @ es" "map Date es = map (strftime_dmY pad) ds" by blast
  from a b have "rota_data st' = rota_data st @ (e # es) \<and> map Date (e # es) = map (strftime_dmY pad) (d # ds)"
    by simp
  with a b show ?case by metis
qed

section \<open>Ordinals: \<open>ord2ymd\<close> inverts \<open>ymd2ord\<close>\<close>

text \<open>
  A year is written \<open>400 a + 100 b + 4 c + e + 1\<close>; the days before it are then
  \<open>146097 a + 36524 b + 1461 c + 365 e\<close>, which is how \<open>ord2ymd\<close> takes an ordinal apart.
\<close>

lemma div_eqI: "0 \<le> r \<Longrightarrow> r < b \<Longrightarrow> (b * q + r) div b = (q::int)"
  by (rule int_div_pos_eq [where r = r]) auto

lemma mod_eqI: "0 \<le> r \<Longrightarrow> r < b \<Longrightarrow> (b * q + r) mod b = (r::int)"
  by (rule int_mod_pos_eq [where q = q]) auto

lemma days_before_year_decomp:
  assumes "0 \<le> b" "b \<le> 3" "0 \<le> c" "c \<le> 24" "0 \<le> e" "e \<le> 3"
  shows "days_before_year (400 * a + 100 * b + 4 * c + e + 1) = 146097 * a + 36524 * b + 1461 * c + 365 * e"
proof -
  let ?Y = "400 * a + 100 * b + 4 * c + e"
  have "(4 * (100 * a + 25 * b + c) + e) div 4 = 100 * a + 25 * b + c"
    using assms by (intro div_eqI) auto
  hence d4: "?Y div 4 = 100 * a + 25 * b + c" by (simp add: algebra_simps)
  have "(100 * (4 * a + b) + (4 * c + e)) div 100 = 4 * a + b"
    using assms by (intro div_eqI) auto
  hence d100: "?Y div 100 = 4 * a + b" by (simp add: algebra_simps)
  have "(400 * a + (100 * b + 4 * c + e)) div 400 = a"
    using assms by (intro div_eqI) auto
  hence d400: "?Y div 400 = a" by (simp add: algebra_simps)
  show ?thesis
    by (simp add: days_before_year_def Let_def d4 d100 d400)
qed

lemma mod_zero_top: "0 < x \<Longrightarrow> x \<le> N \<Longrightarrow> (x mod N = 0) = (x = (N::int))"
  by (cases "x = N") auto

lemma is_leap_decomp:
  assumes "0 \<le> b" "b \<le> 3" "0 \<le> c" "c \<le> 24" "0 \<le> e" "e \<le> 3"
  shows "is_leap (400 * a + 100 * b + 4 * c + e + 1) \<longleftrightarrow> e = 3 \<and> (c \<noteq> 24 \<or> b = 3)"
proof -
  let ?y = "400 * a + 100 * b + 4 * c + e + 1"
  have "?y = (e + 1) + 4 * (100 * a + 25 * b + c)" by simp
  hence m4: "?y mod 4 = (e + 1) mod 4" by (simp only: mod_mult_self2)
  have "?y = (4 * c + e + 1) + 100 * (4 * a + b)" by simp
  hence m100: "?y mod 100 = (4 * c + e + 1) mod 100" by (simp only: mod_mult_self2)
  have "?y = (100 * b + 4 * c + e + 1) + 400 * a" by simp
  hence m400: "?y mod 400 = (100 * b + 4 * c + e + 1) mod 400" by (simp only: mod_mult_self2)
  have "(e + 1 = 4) = (e = 3)" by arith
  moreover have "0 < e + 1" "e + 1 \<le> 4" using assms by arith+
  ultimately have e4: "(e + 1) mod 4 = 0 \<longleftrightarrow> e = 3"
    using mod_zero_top [of "e + 1" 4] by simp
  have "(4 * c + e + 1 = 100) = (c = 24 \<and> e = 3)" using assms by arith
  moreover have "0 < 4 * c + e + 1" "4 * c + e + 1 \<le> 100" using assms by arith+
  ultimately have e100: "(4 * c + e + 1) mod 100 = 0 \<longleftrightarrow> c = 24 \<and> e = 3"
    using mod_zero_top [of "4 * c + e + 1" 100] by simp
  have "(100 * b + 4 * c + e + 1 = 400) = (b = 3 \<and> c = 24 \<and> e = 3)" using assms by arith
  moreover have "0 < 100 * b + 4 * c + e + 1" "100 * b + 4 * c + e + 1 \<le> 400" using assms by arith+
  ultimately have e400: "(100 * b + 4 * c + e + 1) mod 400 = 0 \<longleftrightarrow> b = 3 \<and> c = 24 \<and> e = 3"
    using mod_zero_top [of "100 * b + 4 * c + e + 1" 400] by simp
  show ?thesis
    unfolding is_leap_def m4 m100 m400 e4 e100 e400 by auto
qed

lemma month_day_eval:
  assumes "(n + 50) div 32 = e"
  shows "month_day leap n =
     (if DAYS_BEFORE_MONTH ! nat e + (if e > 2 \<and> leap then 1 else 0) > n
      then (e - 1, n - (DAYS_BEFORE_MONTH ! nat e + (if e > 2 \<and> leap then 1 else 0) -
                   (DAYS_IN_MONTH ! nat (e - 1) + (if e - 1 = 2 \<and> leap then 1 else 0))) + 1)
      else (e, n - (DAYS_BEFORE_MONTH ! nat e + (if e > 2 \<and> leap then 1 else 0)) + 1))"
  by (simp add: month_day_def Let_def assms)

lemma month_day_correct:
  assumes "1 \<le> m" "m \<le> 12" "1 \<le> d"
    and "d \<le> (if m = 2 \<and> leap then 29 else DAYS_IN_MONTH ! nat m)"
  shows "month_day leap (DAYS_BEFORE_MONTH ! nat m + (if m > 2 \<and> leap then 1 else 0) + d - 1) = (m, d)"
proof -
  define L :: int where "L = (if leap then 1 else 0)"
  define n where "n = DAYS_BEFORE_MONTH ! nat m + (if m > 2 \<and> leap then 1 else 0) + d - 1"
  have L: "0 \<le> L" "L \<le> 1" by (simp_all add: L_def)
  from assms(1,2) have "m = 1 \<or> m = 2 \<or> m = 3 \<or> m = 4 \<or> m = 5 \<or> m = 6 \<or> m = 7 \<or> m = 8 \<or> m = 9 \<or> m = 10 \<or> m = 11 \<or> m = 12"
    by arith
  then consider (m1) "m = 1" | (m2) "m = 2" | (m3) "m = 3" | (m4) "m = 4" | (m5) "m = 5" | (m6) "m = 6" | (m7) "m = 7" | (m8) "m = 8" | (m9) "m = 9" | (m10) "m = 10" | (m11) "m = 11" | (m12) "m = 12"
    by blast
  hence "month_day leap n = (m, d)"
  proof cases
    case m1
    with assms L have n: "n = 0 + 0 + d - 1" "1 \<le> d" "d \<le> 31"
      by (auto simp: n_def DAYS_BEFORE_MONTH_def DAYS_IN_MONTH_def L_def split: if_splits)
    with L have "(n + 50) div 32 = 1 \<or> (n + 50) div 32 = 2" by arith
    then show ?thesis
    proof
      assume e: "(n + 50) div 32 = 1"
      show ?thesis unfolding month_day_eval [OF e, of leap] using n L
        by (auto simp: DAYS_BEFORE_MONTH_def DAYS_IN_MONTH_def m1 L_def split: if_splits)
    next
      assume e: "(n + 50) div 32 = 2"
      show ?thesis unfolding month_day_eval [OF e, of leap] using n L
        by (auto simp: DAYS_BEFORE_MONTH_def DAYS_IN_MONTH_def m1 L_def split: if_splits)
    qed
  next
    case m2
    with assms L have n: "n = 31 + 0 + d - 1" "1 \<le> d" "d \<le> 28 + L"
      by (auto simp: n_def DAYS_BEFORE_MONTH_def DAYS_IN_MONTH_def L_def split: if_splits)
    with L have "(n + 50) div 32 = 2 \<or> (n + 50) div 32 = 3" by arith
    then show ?thesis
    proof
      assume e: "(n + 50) div 32 = 2"
      show ?thesis unfolding month_day_eval [OF e, of leap] using n L
        by (auto simp: DAYS_BEFORE_MONTH_def DAYS_IN_MONTH_def m2 L_def split: if_splits)
    next
      assume e: "(n + 50) div 32 = 3"
      show ?thesis unfolding month_day_eval [OF e, of leap] using n L
        by (auto simp: DAYS_BEFORE_MONTH_def DAYS_IN_MONTH_def m2 L_def split: if_splits)
    qed
  next
    case m3
    with assms L have n: "n = 59 + L + d - 1" "1 \<le> d" "d \<le> 31"
      by (auto simp: n_def DAYS_BEFORE_MONTH_def DAYS_IN_MONTH_def L_def split: if_splits)
    with L have "(n + 50) div 32 = 3 \<or> (n + 50) div 32 = 4" by arith
    then show ?thesis
    proof
      assume e: "(n + 50) div 32 = 3"
      show ?thesis unfolding month_day_eval [OF e, of leap] using n L
        by (auto simp: DAYS_BEFORE_MONTH_def DAYS_IN_MONTH_def m3 L_def split: if_splits)
    next
      assume e: "(n + 50) div 32 = 4"
      show ?thesis unfolding month_day_eval [OF e, of leap] using n L
        by (auto simp: DAYS_BEFORE_MONTH_def DAYS_IN_MONTH_def m3 L_def split: if_splits)
    qed
  next
    case m4
    with assms L have n: "n = 90 + L + d - 1" "1 \<le> d" "d \<le> 30"
      by (auto simp: n_def DAYS_BEFORE_MONTH_def DAYS_IN_MONTH_def L_def split: if_splits)
    with L have "(n + 50) div 32 = 4 \<or> (n + 50) div 32 = 5" by arith
    then show ?thesis
    proof
      assume e: "(n + 50) div 32 = 4"
      show ?thesis unfolding month_day_eval [OF e, of leap] using n L
        by (auto simp: DAYS_BEFORE_MONTH_def DAYS_IN_MONTH_def m4 L_def split: if_splits)
    next
      assume e: "(n + 50) div 32 = 5"
      show ?thesis unfolding month_day_eval [OF e, of leap] using n L
        by (auto simp: DAYS_BEFORE_MONTH_def DAYS_IN_MONTH_def m4 L_def split: if_splits)
    qed
  next
    case m5
    with assms L have n: "n = 120 + L + d - 1" "1 \<le> d" "d \<le> 31"
      by (auto simp: n_def DAYS_BEFORE_MONTH_def DAYS_IN_MONTH_def L_def split: if_splits)
    with L have "(n + 50) div 32 = 5 \<or> (n + 50) div 32 = 6" by arith
    then show ?thesis
    proof
      assume e: "(n + 50) div 32 = 5"
      show ?thesis unfolding month_day_eval [OF e, of leap] using n L
        by (auto simp: DAYS_BEFORE_MONTH_def DAYS_IN_MONTH_def m5 L_def split: if_splits)
    next
      assume e: "(n + 50) div 32 = 6"
      show ?thesis unfolding month_day_eval [OF e, of leap] using n L
        by (auto simp: DAYS_BEFORE_MONTH_def DAYS_IN_MONTH_def m5 L_def split: if_splits)
    qed
  next
    case m6
    with assms L have n: "n = 151 + L + d - 1" "1 \<le> d" "d \<le> 30"
      by (auto simp: n_def DAYS_BEFORE_MONTH_def DAYS_IN_MONTH_def L_def split: if_splits)
    with L have "(n + 50) div 32 = 6 \<or> (n + 50) div 32 = 7" by arith
    then show ?thesis
    proof
      assume e: "(n + 50) div 32 = 6"
      show ?thesis unfolding month_day_eval [OF e, of leap] using n L
        by (auto simp: DAYS_BEFORE_MONTH_def DAYS_IN_MONTH_def m6 L_def split: if_splits)
    next
      assume e: "(n + 50) div 32 = 7"
      show ?thesis unfolding month_day_eval [OF e, of leap] using n L
        by (auto simp: DAYS_BEFORE_MONTH_def DAYS_IN_MONTH_def m6 L_def split: if_splits)
    qed
  next
    case m7
    with assms L have n: "n = 181 + L + d - 1" "1 \<le> d" "d \<le> 31"
      by (auto simp: n_def DAYS_BEFORE_MONTH_def DAYS_IN_MONTH_def L_def split: if_splits)
    with L have "(n + 50) div 32 = 7 \<or> (n + 50) div 32 = 8" by arith
    then show ?thesis
    proof
      assume e: "(n + 50) div 32 = 7"
      show ?thesis unfolding month_day_eval [OF e, of leap] using n L
        by (auto simp: DAYS_BEFORE_MONTH_def DAYS_IN_MONTH_def m7 L_def split: if_splits)
    next
      assume e: "(n + 50) div 32 = 8"
      show ?thesis unfolding month_day_eval [OF e, of leap] using n L
        by (auto simp: DAYS_BEFORE_MONTH_def DAYS_IN_MONTH_def m7 L_def split: if_splits)
    qed
  next
    case m8
    with assms L have n: "n = 212 + L + d - 1" "1 \<le> d" "d \<le> 31"
      by (auto simp: n_def DAYS_BEFORE_MONTH_def DAYS_IN_MONTH_def L_def split: if_splits)
    with L have "(n + 50) div 32 = 8 \<or> (n + 50) div 32 = 9" by arith
    then show ?thesis
    proof
      assume e: "(n + 50) div 32 = 8"
      show ?thesis unfolding month_day_eval [OF e, of leap] using n L
        by (auto simp: DAYS_BEFORE_MONTH_def DAYS_IN_MONTH_def m8 L_def split: if_splits)
    next
      assume e: "(n + 50) div 32 = 9"
      show ?thesis unfolding month_day_eval [OF e, of leap] using n L
        by (auto simp: DAYS_BEFORE_MONTH_def DAYS_IN_MONTH_def m8 L_def split: if_splits)
    qed
  next
    case m9
    with assms L have n: "n = 243 + L + d - 1" "1 \<le> d" "d \<le> 30"
      by (auto simp: n_def DAYS_BEFORE_MONTH_def DAYS_IN_MONTH_def L_def split: if_splits)
    with L have "(n + 50) div 32 = 9 \<or> (n + 50) div 32 = 10" by arith
    then show ?thesis
    proof
      assume e: "(n + 50) div 32 = 9"
      show ?thesis unfolding month_day_eval [OF e, of leap] using n L
        by (auto simp: DAYS_BEFORE_MONTH_def DAYS_IN_MONTH_def m9 L_def split: if_splits)
    next
      assume e: "(n + 50) div 32 = 10"
      show ?thesis unfolding month_day_eval [OF e, of leap] using n L
        by (auto simp: DAYS_BEFORE_MONTH_def DAYS_IN_MONTH_def m9 L_def split: if_splits)
    qed
  next
    case m10
    with assms L have n: "n = 273 + L + d - 1" "1 \<le> d" "d \<le> 31"
      by (auto simp: n_def DAYS_BEFORE_MONTH_def DAYS_IN_MONTH_def L_def split: if_splits)
    with L have "(n + 50) div 32 = 10 \<or> (n + 50) div 32 = 11" by arith
    then show ?thesis
    proof
      assume e: "(n + 50) div 32 = 10"
      show ?thesis unfolding month_day_eval [OF e, of leap] using n L
        by (auto simp: DAYS_BEFORE_MONTH_def DAYS_IN_MONTH_def m10 L_def split: if_splits)
    next
      assume e: "(n + 50) div 32 = 11"
      show ?thesis unfolding month_day_eval [OF e, of leap] using n L
        by (auto simp: DAYS_BEFORE_MONTH_def DAYS_IN_MONTH_def m10 L_def split: if_splits)
    qed
  next
    case m11
    with assms L have n: "n = 304 + L + d - 1" "1 \<le> d" "d \<le> 30"
      by (auto simp: n_def DAYS_BEFORE_MONTH_def DAYS_IN_MONTH_def L_def split: if_splits)
    with L have "(n + 50) div 32 = 11 \<or> (n + 50) div 32 = 12" by arith
    then show ?thesis
    proof
      assume e: "(n + 50) div 32 = 11"
      show ?thesis unfolding month_day_eval [OF e, of leap] using n L
        by (auto simp: DAYS_BEFORE_MONTH_def DAYS_IN_MONTH_def m11 L_def split: if_splits)
    next
      assume e: "(n + 50) div 32 = 12"
      show ?thesis unfolding month_day_eval [OF e, of leap] using n L
        by (auto simp: DAYS_BEFORE_MONTH_def DAYS_IN_MONTH_def m11 L_def split: if_splits)
    qed
  next
    case m12
    with assms L have n: "n = 334 + L + d - 1" "1 \<le> d" "d \<le> 31"
      by (auto simp: n_def DAYS_BEFORE_MONTH_def DAYS_IN_MONTH_def L_def split: if_splits)
    with L have "(n + 50) div 32 = 12" by arith
    then show ?thesis
    proof -
      assume e: "(n + 50) div 32 = 12"
      show ?thesis unfolding month_day_eval [OF e, of leap] using n L
        by (auto simp: DAYS_BEFORE_MONTH_def DAYS_IN_MONTH_def m12 L_def split: if_splits)
    qed
  qed
  thus ?thesis by (simp add: n_def)
qed

lemma ord2ymd_steps:
  assumes "(n0 - 1) div DI400Y = a" "(n0 - 1) mod DI400Y = r1"
    and "r1 div DI100Y = b" "r1 mod DI100Y = r2"
    and "r2 div DI4Y = c" "r2 mod DI4Y = r3"
    and "r3 div 365 = e" "r3 mod 365 = t"
  shows "ord2ymd n0 =
     (if e = 4 \<or> b = 4 then (a * 400 + 1 + (b * 100 + c * 4 + e) - 1, 12, 31)
      else (case month_day (e = 3 \<and> (c \<noteq> 24 \<or> b = 3)) t of
              (m, d) \<Rightarrow> (a * 400 + 1 + (b * 100 + c * 4 + e), m, d)))"
  by (simp add: ord2ymd_def month_day_def Let_def assms split: prod.splits)

lemma day_of_year_bounds:
  assumes "1 \<le> m" "m \<le> 12" "1 \<le> d" "d \<le> days_in_month y m"
  shows "0 \<le> days_before_month y m + d - 1"
    and "days_before_month y m + d - 1 \<le> 364 + (if is_leap y then 1 else 0)"
    and "days_before_month y m + d - 1 = 365 \<longrightarrow> m = 12 \<and> d = 31"
proof -
  from assms(1,2) have "m = 1 \<or> m = 2 \<or> m = 3 \<or> m = 4 \<or> m = 5 \<or> m = 6 \<or> m = 7 \<or> m = 8 \<or> m = 9 \<or> m = 10 \<or> m = 11 \<or> m = 12"
    by arith
  with assms(3,4) show "0 \<le> days_before_month y m + d - 1"
    and "days_before_month y m + d - 1 \<le> 364 + (if is_leap y then 1 else 0)"
    and "days_before_month y m + d - 1 = 365 \<longrightarrow> m = 12 \<and> d = 31"
    by (auto simp: days_before_month_def days_in_month_def DAYS_BEFORE_MONTH_def DAYS_IN_MONTH_def
             split: if_splits)
qed

lemma year_decomp:
  "\<exists>a b c e. y = 400 * a + 100 * b + 4 * c + e + 1
      \<and> 0 \<le> b \<and> b \<le> 3 \<and> 0 \<le> c \<and> c \<le> 24 \<and> 0 \<le> e \<and> e \<le> (3::int)"
proof -
  define r where "r = (y - 1) mod 400"
  define s where "s = r mod 100"
  have r: "0 \<le> r" "r < 400" by (simp_all add: r_def)
  have s: "0 \<le> s" "s < 100" by (simp_all add: s_def)
  have 1: "y - 1 = 400 * ((y - 1) div 400) + r" by (simp add: r_def)
  have 2: "r = 100 * (r div 100) + s" by (simp add: s_def)
  have 3: "s = 4 * (s div 4) + s mod 4" by simp
  have b: "0 \<le> r div 100" "r div 100 \<le> 3" using r by arith+
  have c: "0 \<le> s div 4" "s div 4 \<le> 24" using s by arith+
  have e: "0 \<le> s mod 4" "s mod 4 \<le> 3" by arith+
  from 1 2 3 have "y = 400 * ((y - 1) div 400) + 100 * (r div 100) + 4 * (s div 4) + s mod 4 + 1"
    by arith
  with b c e show ?thesis by blast
qed

lemma ord2ymd_ymd2ord:
  assumes "1 \<le> m" "m \<le> 12" "1 \<le> d" "d \<le> days_in_month y m"
  shows "ord2ymd (ymd2ord y m d) = (y, m, d)"
proof -
  from year_decomp [of y] obtain a b c e where
    y: "y = 400 * a + 100 * b + 4 * c + e + 1"
    and B: "0 \<le> b" "b \<le> 3" "0 \<le> c" "c \<le> 24" "0 \<le> e" "e \<le> 3" by blast
  define t where "t = days_before_month y m + d - 1"
  have dby: "days_before_year y = 146097 * a + 36524 * b + 1461 * c + 365 * e"
    unfolding y by (rule days_before_year_decomp [OF B])
  have leap: "is_leap y \<longleftrightarrow> e = 3 \<and> (c \<noteq> 24 \<or> b = 3)"
    unfolding y by (rule is_leap_decomp [OF B])
  have t0: "0 \<le> t" and t1: "t \<le> 364 + (if is_leap y then 1 else 0)"
    and t365: "t = 365 \<longrightarrow> m = 12 \<and> d = 31"
    unfolding t_def using day_of_year_bounds [OF assms] by blast+
  have n0: "ymd2ord y m d - 1 = 146097 * a + (36524 * b + 1461 * c + 365 * e + t)"
    by (simp add: ymd2ord_def dby t_def)
  show ?thesis
  proof (cases "t = 365")
    case True
    with t1 leap have e3: "e = 3" and cb: "c \<noteq> 24 \<or> b = 3" by (auto split: if_splits)
    from True t365 have md: "m = 12" "d = 31" by simp_all
    show ?thesis
    proof (cases "c = 24")
      case c24: True
      with cb have b3: "b = 3" by simp
      have n0': "ymd2ord y m d - 1 = 146097 * a + 146096"
        using n0 True e3 c24 b3 by simp
      have 1: "(ymd2ord y m d - 1) div DI400Y = a" "(ymd2ord y m d - 1) mod DI400Y = 146096"
        unfolding n0' DI400Y_def by (rule div_eqI mod_eqI; simp)+
      have 2: "(146096::int) div DI100Y = 4" "(146096::int) mod DI100Y = 0"
        by (simp_all add: DI100Y_def)
      have 3: "(0::int) div DI4Y = 0" "(0::int) mod DI4Y = 0" by simp_all
      have 4: "(0::int) div 365 = 0" "(0::int) mod 365 = 0" by simp_all
      from ord2ymd_steps [OF 1 2 3 4] show ?thesis
        by (simp add: y md e3 c24 b3)
    next
      case c24: False
      with B have c23: "c \<le> 23" by simp
      have n0': "ymd2ord y m d - 1 = 146097 * a + (36524 * b + (1461 * c + 1460))"
        using n0 True e3 by simp
      have R1: "0 \<le> 36524 * b + (1461 * c + 1460)" "36524 * b + (1461 * c + 1460) < 146097"
        using B c23 by simp_all
      have R2: "0 \<le> 1461 * c + 1460" "1461 * c + 1460 < 36524"
        using B c23 by simp_all
      have R3: "(0::int) \<le> 1460" "(1460::int) < 1461" by simp_all
      have 1: "(ymd2ord y m d - 1) div DI400Y = a"
              "(ymd2ord y m d - 1) mod DI400Y = 36524 * b + (1461 * c + 1460)"
        unfolding n0' DI400Y_def by (rule div_eqI [OF R1] mod_eqI [OF R1])+
      have 2: "(36524 * b + (1461 * c + 1460)) div DI100Y = b"
              "(36524 * b + (1461 * c + 1460)) mod DI100Y = 1461 * c + 1460"
        unfolding DI100Y_def by (rule div_eqI [OF R2] mod_eqI [OF R2])+
      have 3: "(1461 * c + 1460) div DI4Y = c" "(1461 * c + 1460) mod DI4Y = 1460"
        unfolding DI4Y_def by (rule div_eqI [OF R3] mod_eqI [OF R3])+
      have 4: "(1460::int) div 365 = 4" "(1460::int) mod 365 = 0" by simp_all
      from ord2ymd_steps [OF 1 2 3 4] show ?thesis
        by (simp add: y md e3)
    qed
  next
    case False
    with t1 have t364: "t \<le> 364" by (simp split: if_splits)
    have c1: "1461 * c + 365 * e + t < 36524"
    proof (cases "e = 3 \<and> c = 24")
      case True
      show ?thesis
      proof (cases "b = 3")
        case True
        with \<open>e = 3 \<and> c = 24\<close> t364 show ?thesis by simp
      next
        case False
        with \<open>e = 3 \<and> c = 24\<close> leap have "\<not> is_leap y" by simp
        with t1 \<open>e = 3 \<and> c = 24\<close> show ?thesis by simp
      qed
    next
      case False
      with B t364 show ?thesis by arith
    qed
    have R1: "0 \<le> 36524 * b + (1461 * c + 365 * e + t)" "36524 * b + (1461 * c + 365 * e + t) < 146097"
      using B t0 c1 by simp_all
    have R2: "0 \<le> 1461 * c + 365 * e + t" using B t0 by simp
    have R3: "0 \<le> 365 * e + t" "365 * e + t < 1461" using B t0 t364 by simp_all
    have T: "t < 365" using t364 by simp
    have n1: "ymd2ord y m d - 1 = 146097 * a + (36524 * b + (1461 * c + 365 * e + t))"
      using n0 by simp
    have e2: "1461 * c + 365 * e + t = 1461 * c + (365 * e + t)" by simp
    have 1: "(ymd2ord y m d - 1) div DI400Y = a"
            "(ymd2ord y m d - 1) mod DI400Y = 36524 * b + (1461 * c + 365 * e + t)"
      unfolding n1 DI400Y_def by (rule div_eqI [OF R1] mod_eqI [OF R1])+
    have 2: "(36524 * b + (1461 * c + 365 * e + t)) div DI100Y = b"
            "(36524 * b + (1461 * c + 365 * e + t)) mod DI100Y = 1461 * c + 365 * e + t"
      unfolding DI100Y_def by (rule div_eqI [OF R2 c1] mod_eqI [OF R2 c1])+
    have 3: "(1461 * c + 365 * e + t) div DI4Y = c"
            "(1461 * c + 365 * e + t) mod DI4Y = 365 * e + t"
      unfolding e2 DI4Y_def by (rule div_eqI [OF R3] mod_eqI [OF R3])+
    have 4: "(365 * e + t) div 365 = e" "(365 * e + t) mod 365 = t"
      by (rule div_eqI [OF t0 T] mod_eqI [OF t0 T])+
    have md: "month_day (is_leap y) t = (m, d)"
      unfolding t_def days_before_month_def
      using month_day_correct [of m d "is_leap y"] assms
      by (simp add: days_in_month_def)
    from md leap have md': "month_day (e = 3 \<and> (c \<noteq> 24 \<or> b = 3)) t = (m, d)" by simp
    from B have ne: "e \<noteq> 4" "b \<noteq> 4" by simp_all
    from ord2ymd_steps [OF 1 2 3 4] md'
    have "ord2ymd (ymd2ord y m d) = (a * 400 + 1 + (b * 100 + c * 4 + e), m, d)"
      by (simp add: ne)
    thus ?thesis by (simp add: y)
  qed
qed

lemma days_in_month_range:
  assumes "1 \<le> m" "m \<le> 12"
  shows "28 \<le> days_in_month y m" "days_in_month y m \<le> 31"
    and "mdays ! nat m + (if m = 2 \<and> is_leap y then 1 else 0) = days_in_month y m"
proof -
  from assms have "m = 1 \<or> m = 2 \<or> m = 3 \<or> m = 4 \<or> m = 5 \<or> m = 6 \<or> m = 7 \<or> m = 8 \<or> m = 9 \<or> m = 10 \<or> m = 11 \<or> m = 12"
    by arith
  thus "28 \<le> days_in_month y m" "days_in_month y m \<le> 31"
    and "mdays ! nat m + (if m = 2 \<and> is_leap y then 1 else 0) = days_in_month y m"
    by (auto simp: days_in_month_def DAYS_IN_MONTH_def mdays_def)
qed

lemma ymd2ord_range:
  assumes y: "1 \<le> y" "y \<le> 9999" and md: "1 \<le> m" "m \<le> 12" "1 \<le> d" "d \<le> days_in_month y m"
  shows "0 < ymd2ord y m d" and "ymd2ord y m d \<le> MAXORDINAL"
proof -
  from year_decomp [of y] obtain a b c e where
    yd: "y = 400 * a + 100 * b + 4 * c + e + 1"
    and B: "0 \<le> b" "b \<le> 3" "0 \<le> c" "c \<le> 24" "0 \<le> e" "e \<le> 3" by blast
  define t where "t = days_before_month y m + d - 1"
  have dby: "days_before_year y = 146097 * a + 36524 * b + 1461 * c + 365 * e"
    unfolding yd by (rule days_before_year_decomp [OF B])
  have leap: "is_leap y \<longleftrightarrow> e = 3 \<and> (c \<noteq> 24 \<or> b = 3)"
    unfolding yd by (rule is_leap_decomp [OF B])
  have t0: "0 \<le> t" and t1: "t \<le> 364 + (if is_leap y then 1 else 0)"
    unfolding t_def using day_of_year_bounds [OF md] by blast+
  have ord: "ymd2ord y m d = 146097 * a + 36524 * b + 1461 * c + 365 * e + t + 1"
    by (simp add: ymd2ord_def dby t_def)
  from y yd B have a: "0 \<le> a" "a \<le> 24" by arith+
  from a B t0 show "0 < ymd2ord y m d" unfolding ord by simp
  have "36524 * b + 1461 * c + 365 * e + t \<le> 3652058 - 146097 * a"
  proof (cases "a = 24")
    case False
    with a have "a \<le> 23" by simp
    moreover from t1 have "t \<le> 365" by (simp split: if_splits)
    ultimately show ?thesis using B by arith
  next
    case True
    with y yd have lim: "100 * b + 4 * c + e \<le> 398" by simp
    show ?thesis
    proof (cases "e = 3")
      case False
      with leap t1 have "t \<le> 364" by simp
      with B False True show ?thesis by arith
    next
      case e3: True
      with lim B have "b \<le> 2 \<or> c \<le> 23" by arith
      moreover from t1 have "t \<le> 365" by (simp split: if_splits)
      ultimately show ?thesis using B e3 True by arith
    qed
  qed
  thus "ymd2ord y m d \<le> MAXORDINAL" unfolding ord MAXORDINAL_def by simp
qed

lemma new_date_ok:
  assumes "1 \<le> y" "y \<le> 9999" "1 \<le> m" "m \<le> 12" "1 \<le> d" "d \<le> days_in_month y m"
  shows "new_date y m d = Inr \<lparr>date_year = y, date_month = m, date_day = d\<rparr>"
  using assms by (simp add: new_date_def MINYEAR_def MAXYEAR_def)

lemma date_add_in_month:
  assumes y: "1 \<le> y" "y \<le> 9999" and m: "1 \<le> m" "m \<le> 12"
    and i: "0 \<le> i" "i < days_in_month y m"
  shows "date_add_days \<lparr>date_year = y, date_month = m, date_day = 1\<rparr> i
           = Inr \<lparr>date_year = y, date_month = m, date_day = 1 + i\<rparr>"
proof -
  have d: "1 \<le> 1 + i" "1 + i \<le> days_in_month y m" using i by simp_all
  have o: "toordinal \<lparr>date_year = y, date_month = m, date_day = 1\<rparr> + i = ymd2ord y m (1 + i)"
    by (simp add: toordinal_def ymd2ord_def)
  from ymd2ord_range [OF y m d] ord2ymd_ymd2ord [OF m d, of ] new_date_ok [OF y m d]
  show ?thesis
    by (simp add: date_add_days_def Let_def o fromordinal_def)
qed

lemma monthrange_ok:
  assumes "1 \<le> y" "y \<le> 9999" "1 \<le> m" "m \<le> 12"
  shows "\<exists>w. monthrange y m = Inr (w, days_in_month y m)"
proof -
  from days_in_month_range [OF assms(3,4), of y] have "1 \<le> days_in_month y m" by simp
  with assms have "new_date y m 1 = Inr \<lparr>date_year = y, date_month = m, date_day = 1\<rparr>"
    by (intro new_date_ok) simp_all
  with assms days_in_month_range(3) [OF assms(3,4), of y] show ?thesis
    by (simp add: monthrange_def calendar_weekday_def MINYEAR_def MAXYEAR_def)
qed

lemma dates_loop_map:
  assumes "\<forall>i \<in> set is. date_add_days s i = Inr (f i)"
  shows "dates_loop s is acc = Inr (acc @ filter (\<lambda>d. date_weekday d < 5) (map f is))"
  using assms by (induction "is" arbitrary: acc) auto

lemma upto_as_map: "0 \<le> n \<Longrightarrow> map (\<lambda>i. 1 + i) (map int [0..<nat n]) = [1..n]"
proof (induction "nat n" arbitrary: n)
  case 0
  thus ?case by simp
next
  case (Suc k)
  hence n: "1 \<le> n" "nat (n - 1) = k" by arith+
  from Suc.hyps(1) [of "n - 1"] n have "map (\<lambda>i. 1 + i) (map int [0..<k]) = [1..n - 1]" by simp
  moreover have "nat n = Suc k" using Suc.hyps(2) by simp
  moreover have "[1..n] = [1..n - 1] @ [n]" using n by (simp add: upto_rec2)
  moreover have "1 + int k = n" using n by arith
  ultimately show ?case by simp
qed

lemma generate_dates_eq:
  assumes y: "1 \<le> y" "y \<le> 9999" and m: "1 \<le> m" "m \<le> 12"
  shows "generate_dates y m = Inr (working_dates y m)"
proof -
  let ?n = "days_in_month y m"
  let ?s = "\<lparr>date_year = y, date_month = m, date_day = 1\<rparr>"
  let ?f = "\<lambda>i. \<lparr>date_year = y, date_month = m, date_day = 1 + i\<rparr>"
  from days_in_month_range [OF m, of y] have n: "1 \<le> ?n" by simp
  from monthrange_ok [OF y m] obtain w where mr: "monthrange y m = Inr (w, ?n)" by blast
  have s: "new_date y m 1 = Inr ?s" using y m n by (intro new_date_ok) simp_all
  have e: "new_date y m ?n = Inr \<lparr>date_year = y, date_month = m, date_day = ?n\<rparr>"
    using y m n by (intro new_date_ok) simp_all
  have diff: "date_diff_days \<lparr>date_year = y, date_month = m, date_day = ?n\<rparr> ?s + 1 = ?n"
    by (simp add: date_diff_days_def toordinal_def ymd2ord_def)
  have "\<forall>i \<in> set (py_range ?n). date_add_days ?s i = Inr (?f i)"
    using date_add_in_month [OF y m] by (auto simp: py_range_def)
  from dates_loop_map [OF this, of "[]"]
  have "dates_loop ?s (py_range ?n) [] = Inr (filter (\<lambda>d. date_weekday d < 5) (map ?f (py_range ?n)))"
    by simp
  moreover have "map ?f (py_range ?n) = month_dates y m"
  proof -
    have "map ?f (py_range ?n) =
            map (\<lambda>d. \<lparr>date_year = y, date_month = m, date_day = d\<rparr>) (map (\<lambda>i. 1 + i) (map int [0..<nat ?n]))"
      by (simp add: py_range_def o_def)
    also have "\<dots> = month_dates y m"
      using n by (simp only: upto_as_map month_dates_def)
    finally show ?thesis .
  qed
  ultimately show ?thesis
    by (simp add: generate_dates_def mr s e diff working_dates_def)
qed

lemma working_dates_sorted: "sorted_wrt date_lt (working_dates y m)"
proof -
  have "sorted_wrt (<) [1..days_in_month y m]"
    using sorted_upto distinct_upto strict_sorted_iff by blast
  hence "sorted_wrt date_lt (month_dates y m)"
    unfolding month_dates_def by (simp add: sorted_wrt_map date_lt_def)
  thus ?thesis
    unfolding working_dates_def by (rule sorted_wrt_filter)
qed

lemma working_dates_valid:
  assumes "1 \<le> y" "y \<le> 9999" "1 \<le> m" "m \<le> 12"
  shows "\<forall>d \<in> set (working_dates y m). valid_date d"
  using assms by (auto simp: working_dates_def month_dates_def valid_date_def MINYEAR_def MAXYEAR_def)

section \<open>Formatting a date and parsing it back\<close>

lemmas fmt_defs = zfill_def dec_digits.simps digit_char_def is_digit_def dv_def digit_val_def

lemma match_d_fmt:
  assumes "1 \<le> d" "d \<le> 31"
  shows "match_d (zfill 2 (dec_digits (nat d)) @ CHR ''/'' # r) = Some (d, CHR ''/'' # r)"
proof -
  from assms have "d = 1 \<or> d = 2 \<or> d = 3 \<or> d = 4 \<or> d = 5 \<or> d = 6 \<or> d = 7 \<or> d = 8 \<or> d = 9 \<or> d = 10 \<or> d = 11 \<or> d = 12 \<or> d = 13 \<or> d = 14 \<or> d = 15 \<or> d = 16 \<or> d = 17 \<or> d = 18 \<or> d = 19 \<or> d = 20 \<or> d = 21 \<or> d = 22 \<or> d = 23 \<or> d = 24 \<or> d = 25 \<or> d = 26 \<or> d = 27 \<or> d = 28 \<or> d = 29 \<or> d = 30 \<or> d = 31"
    by arith
  thus ?thesis
    by (elim disjE) (simp_all add: fmt_defs)
qed

lemma match_m_fmt:
  assumes "1 \<le> m" "m \<le> 12"
  shows "match_m (zfill 2 (dec_digits (nat m)) @ CHR ''/'' # r) = Some (m, CHR ''/'' # r)"
proof -
  from assms have "m = 1 \<or> m = 2 \<or> m = 3 \<or> m = 4 \<or> m = 5 \<or> m = 6 \<or> m = 7 \<or> m = 8 \<or> m = 9 \<or> m = 10 \<or> m = 11 \<or> m = 12"
    by arith
  thus ?thesis
    by (elim disjE) (simp_all add: fmt_defs)
qed

lemma digit_char_val:
  assumes "k < 10"
  shows "is_digit (digit_char k)" and "dv (digit_char k) = int k"
proof -
  from assms have "k = 0 \<or> k = 1 \<or> k = 2 \<or> k = 3 \<or> k = 4 \<or> k = 5 \<or> k = 6 \<or> k = 7 \<or> k = 8 \<or> k = 9"
    by arith
  thus "is_digit (digit_char k)" and "dv (digit_char k) = int k"
    by (elim disjE; simp add: fmt_defs)+
qed


lemma dec_digits_1: "k < 10 \<Longrightarrow> dec_digits k = [digit_char k]"
  by (subst dec_digits.simps) simp

lemma dec_digits_2:
  "10 \<le> k \<Longrightarrow> k < 100 \<Longrightarrow> dec_digits k = [digit_char (k div 10), digit_char (k mod 10)]"
  by (subst dec_digits.simps) (simp add: dec_digits_1)

lemma div_10_10: "(k::nat) div 10 div 10 = k div 100"
  using div_mult2_eq [of k 10 10] by simp

lemma div_100_10: "(k::nat) div 100 div 10 = k div 1000"
  using div_mult2_eq [of k 100 10] by simp

lemma div_10_100: "(k::nat) div 10 div 100 = k div 1000"
  using div_mult2_eq [of k 10 100] by simp

lemma dec_digits_3:
  "100 \<le> k \<Longrightarrow> k < 1000 \<Longrightarrow>
     dec_digits k = [digit_char (k div 100), digit_char (k div 10 mod 10), digit_char (k mod 10)]"
  by (subst dec_digits.simps) (simp add: dec_digits_2 div_10_10)

lemma dec_digits_4:
  "1000 \<le> k \<Longrightarrow> k < 10000 \<Longrightarrow>
     dec_digits k = [digit_char (k div 1000), digit_char (k div 100 mod 10),
                     digit_char (k div 10 mod 10), digit_char (k mod 10)]"
  by (subst dec_digits.simps) (simp add: dec_digits_3 div_10_10 div_10_100)

lemma digit_char_0: "digit_char 0 = CHR ''0''"
  by (simp add: digit_char_def)

lemma replicate_small:
  "replicate 3 c = [c, c, c]" "replicate 2 c = [c, c]" "replicate 1 c = [c]"
  by (simp_all add: numeral_3_eq_3 numeral_2_eq_2)

lemma zfill_4:
  assumes "k < 10000"
  shows "zfill 4 (dec_digits k) =
           [digit_char (k div 1000), digit_char (k div 100 mod 10),
            digit_char (k div 10 mod 10), digit_char (k mod 10)]"
proof -
  consider "k < 10" | "10 \<le> k" "k < 100" | "100 \<le> k" "k < 1000" | "1000 \<le> k" by arith
  thus ?thesis
  proof cases
    case 1
    thus ?thesis by (simp add: dec_digits_1 zfill_def digit_char_0 replicate_small)
  next
    case 2
    thus ?thesis by (simp add: dec_digits_2 zfill_def digit_char_0 replicate_small)
  next
    case 3
    thus ?thesis by (simp add: dec_digits_3 zfill_def digit_char_0 replicate_small)
  next
    case 4
    with assms show ?thesis by (simp add: dec_digits_4 zfill_def)
  qed
qed

lemma year_digits:
  "int (k div 1000) * 1000 + int (k div 100 mod 10) * 100 + int (k div 10 mod 10) * 10
           + int (k mod 10) = int k"
proof -
  define q1 q2 q3 where "q1 = k div 10" and "q2 = k div 100" and "q3 = k div 1000"
  have 1: "k = q1 * 10 + k mod 10" by (simp add: q1_def)
  have 2: "q1 = q2 * 10 + q1 mod 10"
    using div_mult_mod_eq [of q1 10] by (simp add: q1_def q2_def div_10_10)
  have 3: "q2 = q3 * 10 + q2 mod 10"
    using div_mult_mod_eq [of q2 10] by (simp add: q2_def q3_def div_100_10)
  have "int k = int q1 * 10 + int (k mod 10)" by (subst 1) simp
  moreover have "int q1 = int q2 * 10 + int (q1 mod 10)" by (subst 2) simp
  moreover have "int q2 = int q3 * 10 + int (q2 mod 10)" by (subst 3) simp
  ultimately have "int q3 * 1000 + int (q2 mod 10) * 100 + int (q1 mod 10) * 10 + int (k mod 10) = int k"
    by simp
  thus ?thesis by (simp add: q1_def q2_def q3_def)
qed

lemma match_Y_fmt:
  assumes "1 \<le> y" "y \<le> 9999" "pad \<or> 1000 \<le> y"
  shows "match_Y (strftime_Y pad y) = Some (y, [])"
proof -
  define k where "k = nat y"
  have k: "k < 10000" "int k = y" using assms by (simp_all add: k_def)
  have "strftime_Y pad y = [digit_char (k div 1000), digit_char (k div 100 mod 10),
            digit_char (k div 10 mod 10), digit_char (k mod 10)]"
  proof (cases pad)
    case True
    thus ?thesis using zfill_4 [OF k(1)] by (simp add: strftime_Y_def k_def)
  next
    case False
    with assms have "1000 \<le> k" by (simp add: k_def)
    with False k(1) show ?thesis using zfill_4 [OF k(1)]
      by (simp add: strftime_Y_def k_def [symmetric] dec_digits_4)
  qed
  moreover have "k div 1000 < 10" using k(1) by simp
  ultimately show ?thesis
    using year_digits [of k] k(2)
    by (simp add: digit_char_val)
qed

lemma match_Y_short: "length s < 4 \<Longrightarrow> match_Y s = None"
  by (cases s rule: match_Y.cases) auto

lemma match_Y_unpadded:
  assumes "1 \<le> y" "y < 1000"
  shows "match_Y (strftime_Y False y) = None"
proof -
  define k where "k = nat y"
  have k: "k < 1000" using assms by (simp add: k_def)
  consider "k < 10" | "10 \<le> k" "k < 100" | "100 \<le> k" "k < 1000" using k by arith
  hence "length (dec_digits k) < 4"
    by cases (simp_all add: dec_digits_1 dec_digits_2 dec_digits_3)
  thus ?thesis by (simp add: strftime_Y_def k_def match_Y_short)
qed

lemma strptime_prefix:
  assumes "valid_date d"
  shows "strptime_dmY (strftime_dmY pad d) =
           (case match_Y (strftime_Y pad (date_year d)) of
              None \<Rightarrow> Inl ValueError
            | Some (y, r5) \<Rightarrow> if r5 \<noteq> [] then Inl ValueError
                               else new_date y (date_month d) (date_day d))"
proof -
  from assms have dm: "1 \<le> date_month d" "date_month d \<le> 12" "1 \<le> date_day d"
    "date_day d \<le> days_in_month (date_year d) (date_month d)"
    by (simp_all add: valid_date_def)
  from dm(1,2) have "DAYS_IN_MONTH ! nat (date_month d) \<le> 31"
  proof -
    from dm(1,2) have "date_month d = 1 \<or> date_month d = 2 \<or> date_month d = 3 \<or> date_month d = 4 \<or> date_month d = 5 \<or> date_month d = 6 \<or> date_month d = 7 \<or> date_month d = 8 \<or> date_month d = 9 \<or> date_month d = 10 \<or> date_month d = 11 \<or> date_month d = 12"
      by arith
    thus ?thesis by (auto simp: DAYS_IN_MONTH_def)
  qed
  with dm(4) have d31: "date_day d \<le> 31"
    by (auto simp: days_in_month_def split: if_splits)
  show ?thesis
    by (simp add: strptime_dmY_def strftime_dmY_def match_d_fmt [OF dm(3) d31] match_m_fmt [OF dm(1,2)])
qed

lemma strptime_strftime:
  assumes "valid_date d" "pad \<or> 1000 \<le> date_year d"
  shows "strptime_dmY (strftime_dmY pad d) = Inr d"
proof -
  from assms(1) have y: "1 \<le> date_year d" "date_year d \<le> 9999"
    by (simp_all add: valid_date_def MINYEAR_def MAXYEAR_def)
  from assms(1) have "new_date (date_year d) (date_month d) (date_day d) = Inr d"
    by (simp add: new_date_def valid_date_def)
  thus ?thesis
    by (simp add: strptime_prefix [OF assms(1)] match_Y_fmt [OF y assms(2)])
qed

lemma strptime_strftime_unpadded:
  assumes "valid_date d" "date_year d < 1000"
  shows "strptime_dmY (strftime_dmY False d) = Inl ValueError"
proof -
  from assms(1) have y: "1 \<le> date_year d"
    by (simp add: valid_date_def MINYEAR_def)
  show ?thesis
    by (simp add: strptime_prefix [OF assms(1)] match_Y_unpadded [OF y assms(2)])
qed

lemma strptime_strftime_cases:
  assumes "valid_date d"
  shows "strptime_dmY (strftime_dmY pad d) = Inr d \<or> strptime_dmY (strftime_dmY pad d) = Inl ValueError"
proof (cases "pad \<or> 1000 \<le> date_year d")
  case True
  with strptime_strftime [OF assms] show ?thesis by simp
next
  case False
  with strptime_strftime_unpadded [OF assms] show ?thesis by simp
qed

section \<open>A run seen at one date\<close>

lemma step_cases:
  assumes cs: "choice_sound choice"
    and step: "rota_step choice pad cl d st = Inr st'"
    and app: "rota_data st' = rota_data st @ [e]"
  shows "(d \<in> cl \<and> e = closed_entry pad (staff st) d \<and> staff st' = staff st
            \<and> last_assigned_staff st' = None)
       \<or> (d \<notin> cl \<and> day_pool (staff st) (last_assigned_staff st) d = []
            \<and> e = open_entry pad (staff st) d ''UNASSIGNED'' \<and> staff st' = staff st
            \<and> last_assigned_staff st' = None)
       \<or> (d \<notin> cl \<and> (\<exists>j \<in> set (day_pool (staff st) (last_assigned_staff st) d).
              (\<forall>i \<in> set (day_pool (staff st) (last_assigned_staff st) d).
                  shift_count (staff st ! j) \<le> shift_count (staff st ! i))
              \<and> e = open_entry pad (staff st) d (name (staff st ! j))
              \<and> staff st' = assign_to d j (staff st)
              \<and> last_assigned_staff st' = Some (name (staff st ! j))))"
proof (cases "d \<in> cl")
  case True
  with step app show ?thesis by (auto simp: rota_step_closed)
next
  case False
  show ?thesis
  proof (cases "day_pool (staff st) (last_assigned_staff st) d = []")
    case True
    with False step app show ?thesis by (auto simp: rota_step_unassigned)
  next
    case ne: False
    from rota_step_assigned [OF cs False ne, of pad] step app False show ?thesis
      by auto
  qed
qed

lemma run_view:
  assumes cs: "choice_sound choice" and k: "k < length dates"
  obtains st st' fin where
    "rota_loop choice pad cl (take k dates) (init_state g stf) = Inr st"
    "rota_step choice pad cl (dates ! k) st = Inr st'"
    "rota_loop choice pad cl (take (Suc k) dates) (init_state g stf) = Inr st'"
    "generate_rota_with choice pad g dates stf cl = Inr fin"
    "map name (staff st) = map name stf" "map holidays (staff st) = map holidays stf"
    "map office_days (staff st) = map office_days stf"
    "map name (staff fin) = map name stf" "map holidays (staff fin) = map holidays stf"
    "length (rota_data fin) = length dates"
    "map Date (rota_data fin) = map (strftime_dmY pad) dates"
    "rota_data st' = rota_data st @ [rota_data fin ! k]"
proof -
  let ?st0 = "init_state g stf"
  from run_at [OF cs k, of pad cl ?st0] obtain st st' fin where
    r: "rota_loop choice pad cl (take k dates) ?st0 = Inr st"
       "rota_step choice pad cl (dates ! k) st = Inr st'"
       "rota_loop choice pad cl (take (Suc k) dates) ?st0 = Inr st'"
       "rota_loop choice pad cl (drop (Suc k) dates) st' = Inr fin"
       "rota_loop choice pad cl dates ?st0 = Inr fin" by blast
  from rota_loop_shape [OF cs r(1)] obtain es where
    a: "map name (staff st) = map name stf" "map holidays (staff st) = map holidays stf"
       "map office_days (staff st) = map office_days stf"
       "rota_data st = es" "map Date es = map (strftime_dmY pad) (take k dates)"
    by (auto simp: init_state_def)
  from a(5) k have len: "length es = k"
    by (metis length_map length_take min.absorb2 less_imp_le_nat)
  from rota_step_shape [OF cs r(2)] obtain e where
    b: "rota_data st' = rota_data st @ [e]" by blast
  from rota_loop_shape [OF cs r(4)] obtain es2 where
    c: "rota_data fin = rota_data st' @ es2" by blast
  from rota_loop_shape [OF cs r(5)] obtain es3 where
    d: "map name (staff fin) = map name stf" "map holidays (staff fin) = map holidays stf"
       "rota_data fin = es3" "map Date es3 = map (strftime_dmY pad) dates"
    by (auto simp: init_state_def)
  from d(3,4) have lf: "length (rota_data fin) = length dates"
    by (metis length_map)
  from a(4) b c len have "rota_data fin ! k = e"
    by (simp add: nth_append)
  with b have "rota_data st' = rota_data st @ [rota_data fin ! k]" by simp
  with r a d lf that show ?thesis
    by (simp add: generate_rota_with_def)
qed

lemma nth_of_map_eq:
  assumes "map f xs = map f ys" "i < length ys"
  shows "length xs = length ys" and "f (xs ! i) = f (ys ! i)"
proof -
  from assms(1) show l: "length xs = length ys" by (metis length_map)
  with assms show "f (xs ! i) = f (ys ! i)" by (metis nth_map)
qed

lemma set_back_to_back_on:
  "set (back_to_back_on stf d) = {i. i < length stf \<and> eligible (stf ! i) d}"
  by (auto simp: back_to_back_on_def eligible_def Let_def)

lemma set_available_on:
  "set (available_on stf d) = {i. i < length stf \<and> eligible_today (stf ! i) d}"
  by (auto simp: available_on_def eligible_today_def eligible_def Let_def)

lemma set_base_pool_eligible:
  "i \<in> set (base_pool stf d) \<Longrightarrow> i < length stf \<and> eligible (stf ! i) d"
  by (auto simp: base_pool_def set_back_to_back_on set_available_on eligible_today_def split: if_splits)

lemma set_day_pool_eligible:
  "i \<in> set (day_pool stf l d) \<Longrightarrow> i < length stf \<and> eligible (stf ! i) d"
  using avoid_last_subset [of stf l "base_pool stf d"] set_base_pool_eligible [of i stf d]
  by (auto simp: day_pool_def)





section \<open>Claims on the engine\<close>

text \<open>
  Claim C4. For a date of the sequence that is a closure day, whatever the roster: the
  entry at that position carries the date, has shift \<^verbatim>\<open>CLOSED\<close> and notes that begin with
  \<^verbatim>\<open>University Closure\<close>; processing the date leaves the staff list as it was (so no
  \<^verbatim>\<open>assigned_dates\<close> and no \<^verbatim>\<open>shift_count\<close> changes) and resets \<^verbatim>\<open>last_assigned_staff\<close>.
  \<open>st\<close> is the state before the date is processed, \<open>st'\<close> the state after, \<open>fin\<close>
  the state at the end of the run.
\<close>

theorem closure_day_entry:
  assumes "k < length dates" and "dates ! k \<in> closure_days"
  shows "\<exists>st st' fin.
           rota_loop random_choice pad closure_days (take k dates) (init_state g roster) = Inr st
         \<and> rota_step random_choice pad closure_days (dates ! k) st = Inr st'
         \<and> generate_rota pad g dates roster closure_days = Inr fin
         \<and> Date (rota_data fin ! k) = strftime_dmY pad (dates ! k)
         \<and> Shift (rota_data fin ! k) = Some ''CLOSED''
         \<and> prefix ''University Closure'' (Notes (rota_data fin ! k))
         \<and> staff st' = staff st
         \<and> last_assigned_staff st' = None"
proof -
  from run_view [OF choice_sound_random assms(1), of pad closure_days g roster]
  obtain st st' fin where
    r: "rota_loop random_choice pad closure_days (take k dates) (init_state g roster) = Inr st"
       "rota_step random_choice pad closure_days (dates ! k) st = Inr st'"
       "generate_rota_with random_choice pad g dates roster closure_days = Inr fin"
       "rota_data st' = rota_data st @ [rota_data fin ! k]" by metis
  from step_cases [OF choice_sound_random r(2) r(4)] assms(2)
  have "rota_data fin ! k = closed_entry pad (staff st) (dates ! k)"
    and "staff st' = staff st" and "last_assigned_staff st' = None" by auto
  with r show ?thesis
    by (auto simp: generate_rota_def closed_entry_def)
qed



lemma assign_to_inj:
  assumes "j < length stf" "j' < length stf" "assign_to d j stf = assign_to d j' stf"
  shows "j = j'"
proof (rule ccontr)
  assume ne: "j \<noteq> j'"
  have "shift_count (assign_to d j stf ! j) = shift_count (stf ! j) + 1"
    using assms(1) by (simp add: assign_to_def)
  moreover have "shift_count (assign_to d j' stf ! j) = shift_count (stf ! j)"
    using ne by (simp add: assign_to_def)
  ultimately show False using assms(3) by simp
qed

lemma assign_to_neq:
  assumes "j < length stf"
  shows "assign_to d j stf \<noteq> stf"
proof
  assume "assign_to d j stf = stf"
  hence "shift_count (assign_to d j stf ! j) = shift_count (stf ! j)" by simp
  with assms show False by (simp add: assign_to_def)
qed

lemma in_day_pool:
  assumes "i < length stf" "eligible_today (stf ! i) d" "l \<noteq> Some (name (stf ! i))"
  shows "i \<in> set (day_pool stf l d)"
proof -
  from assms(1,2) have a: "i \<in> set (available_on stf d)" by (simp add: set_available_on)
  hence "i \<in> set (base_pool stf d)" by (auto simp: base_pool_def)
  with assms(3) show ?thesis
    by (cases l) (auto simp: day_pool_def avoid_last_def Let_def filter_empty_conv)
qed

text \<open>
  Claim C3, as amended. On a date that is not a closure day, the member \<open>j\<close> that the step
  selects has a shift count no higher than that of any eligible member (office day, not on
  holiday, not yet assigned that date) whose name is not \<^verbatim>\<open>last_assigned_staff\<close>. The
  member of the previous working day is left out of the comparison: the
  consecutive-avoidance filter removes that member before the minimum is taken.
\<close>

theorem least_loaded_among_not_last:
  assumes "k < length dates" and "dates ! k \<notin> closure_days"
  shows "\<exists>st st' fin.
           rota_loop random_choice pad closure_days (take k dates) (init_state g roster) = Inr st
         \<and> rota_step random_choice pad closure_days (dates ! k) st = Inr st'
         \<and> generate_rota pad g dates roster closure_days = Inr fin
         \<and> (\<forall>j < length (staff st). staff st' = assign_to (dates ! k) j (staff st) \<longrightarrow>
               (\<forall>i < length (staff st).
                   eligible_today (staff st ! i) (dates ! k)
                   \<and> last_assigned_staff st \<noteq> Some (name (staff st ! i))
                   \<longrightarrow> shift_count (staff st ! j) \<le> shift_count (staff st ! i)))"
proof -
  let ?d = "dates ! k"
  from run_view [OF choice_sound_random assms(1), of pad closure_days g roster]
  obtain st st' fin where
    r: "rota_loop random_choice pad closure_days (take k dates) (init_state g roster) = Inr st"
       "rota_step random_choice pad closure_days ?d st = Inr st'"
       "generate_rota_with random_choice pad g dates roster closure_days = Inr fin"
       "rota_data st' = rota_data st @ [rota_data fin ! k]" by metis
  have "\<forall>j < length (staff st). staff st' = assign_to ?d j (staff st) \<longrightarrow>
               (\<forall>i < length (staff st).
                   eligible_today (staff st ! i) ?d
                   \<and> last_assigned_staff st \<noteq> Some (name (staff st ! i))
                   \<longrightarrow> shift_count (staff st ! j) \<le> shift_count (staff st ! i))"
  proof (intro allI impI)
    fix j i
    assume j: "j < length (staff st)" and sel: "staff st' = assign_to ?d j (staff st)"
      and i: "i < length (staff st)"
      and el: "eligible_today (staff st ! i) ?d \<and> last_assigned_staff st \<noteq> Some (name (staff st ! i))"
    from sel j have changed: "staff st' \<noteq> staff st" by (simp add: assign_to_neq)
    with step_cases [OF choice_sound_random r(2) r(4)] assms(2)
    obtain j0 where j0: "j0 \<in> set (day_pool (staff st) (last_assigned_staff st) ?d)"
      "\<forall>i \<in> set (day_pool (staff st) (last_assigned_staff st) ?d).
          shift_count (staff st ! j0) \<le> shift_count (staff st ! i)"
      "staff st' = assign_to ?d j0 (staff st)" by auto
    from set_day_pool_eligible [OF j0(1)] have j0l: "j0 < length (staff st)" by simp
    from sel j0(3) have "assign_to ?d j (staff st) = assign_to ?d j0 (staff st)" by simp
    from assign_to_inj [OF j j0l this] have "j = j0" .
    moreover from in_day_pool [OF i] el
    have "i \<in> set (day_pool (staff st) (last_assigned_staff st) ?d)" by simp
    ultimately show "shift_count (staff st ! j) \<le> shift_count (staff st ! i)"
      using j0(2) by simp
  qed
  with r show ?thesis by (auto simp: generate_rota_def)
qed

lemma last_is_previous_shift:
  assumes cs: "choice_sound choice"
    and step: "rota_step choice pad cl d st = Inr st'"
    and app: "rota_data st' = rota_data st @ [e]"
    and l: "last_assigned_staff st' = Some l"
  shows "Shift e = Some l"
  using step_cases [OF cs step app] l by (auto simp: open_entry_def)

lemma names_all_equal_singleton:
  assumes d: "distinct (map name stf)" and p: "distinct pool" "pool \<noteq> []"
    and lt: "\<forall>i \<in> set pool. i < length stf" and eq: "\<forall>i \<in> set pool. name (stf ! i) = l"
  shows "\<exists>j. pool = [j]"
proof (cases pool)
  case Nil
  with p(2) show ?thesis by simp
next
  case (Cons a rest)
  have "rest = []"
  proof (rule ccontr)
    assume "rest \<noteq> []"
    then obtain b where b: "b \<in> set rest" by (cases rest) auto
    with Cons lt eq have "a < length stf" "b < length stf" "name (stf ! a) = name (stf ! b)"
      by simp_all
    with nth_eq_iff_index_eq [OF d, of a b] have "a = b" by simp
    with p(1) Cons b show False by simp
  qed
  with Cons show ?thesis by simp
qed

lemma distinct_base_pool: "distinct (base_pool stf d)"
  by (simp add: base_pool_def available_on_def back_to_back_on_def Let_def)

lemma step_records:
  assumes cs: "choice_sound choice" and d: "d \<notin> cl"
    and step: "rota_step choice pad cl d st = Inr st'"
    and app: "rota_data st' = rota_data st @ [e]"
  shows "(base_pool (staff st) d \<noteq> [] \<longrightarrow>
            (\<exists>j \<in> set (base_pool (staff st) d).
                Shift e = Some (name (staff st ! j))
                \<and> last_assigned_staff st' = Some (name (staff st ! j))))
       \<and> (base_pool (staff st) d = [] \<longrightarrow>
            Shift e = Some ''UNASSIGNED'' \<and> last_assigned_staff st' = None)"
proof -
  let ?pool = "day_pool (staff st) (last_assigned_staff st) d"
  have sub: "set ?pool \<subseteq> set (base_pool (staff st) d)"
    unfolding day_pool_def by (rule avoid_last_subset)
  have emp: "?pool = [] \<longleftrightarrow> base_pool (staff st) d = []"
    by (simp add: day_pool_def)
  from step_cases [OF cs step app] d
  consider (un) "?pool = []" "e = open_entry pad (staff st) d ''UNASSIGNED''"
      "last_assigned_staff st' = None"
    | (as) j where "j \<in> set ?pool" "e = open_entry pad (staff st) d (name (staff st ! j))"
      "last_assigned_staff st' = Some (name (staff st ! j))"
    by auto
  thus ?thesis
  proof cases
    case un
    with emp show ?thesis by (simp add: open_entry_def)
  next
    case as
    from as(1) sub have jb: "j \<in> set (base_pool (staff st) d)" by auto
    hence "base_pool (staff st) d \<noteq> []" by auto
    with as jb show ?thesis by (auto simp: open_entry_def)
  qed
qed

text \<open>
  Claim C7. The engine keeps \<^verbatim>\<open>last_assigned_staff\<close> and uses it to avoid a second shift
  in a row. On a date \<open>k\<close> that is not a closure day:

  \<^item> the name is recorded: when the relevant pool (primary, or fallback when the primary
    is empty) is not empty, the entry's shift is the name of one of its members and
    \<^verbatim>\<open>last_assigned_staff\<close> is that name after the step (lines 91 and 102); when the pool
    is empty, \<^verbatim>\<open>last_assigned_staff\<close> is reset to \<^verbatim>\<open>None\<close> (line 93);

  \<^item> the state before date \<open>k\<close> is the state the step on date \<open>k - 1\<close> returned, so when the
    previous date is not a closure day and had a member available, \<^verbatim>\<open>last_assigned_staff\<close>
    is the shift of the previous entry when date \<open>k\<close> is processed;

  \<^item> the name is used: when \<^verbatim>\<open>last_assigned_staff\<close> is \<open>l\<close> (then the date is not the first,
    and \<open>l\<close> is the shift of the previous entry), if the pool holds a member with another
    name, the entry's shift is not \<open>l\<close>; and if the shift is \<open>l\<close> again, in a roster with
    distinct names, that member is the only one in the pool.
\<close>

theorem consecutive_avoidance:
  assumes "k < length dates" and "dates ! k \<notin> closure_days"
  shows "\<exists>st st' fin.
           rota_loop random_choice pad closure_days (take k dates) (init_state g roster) = Inr st
         \<and> rota_step random_choice pad closure_days (dates ! k) st = Inr st'
         \<and> rota_loop random_choice pad closure_days (take (Suc k) dates) (init_state g roster) = Inr st'
         \<and> generate_rota pad g dates roster closure_days = Inr fin
         \<and> (base_pool (staff st) (dates ! k) \<noteq> [] \<longrightarrow>
               (\<exists>j \<in> set (base_pool (staff st) (dates ! k)).
                   Shift (rota_data fin ! k) = Some (name (staff st ! j))
                   \<and> last_assigned_staff st' = Some (name (staff st ! j))))
         \<and> (base_pool (staff st) (dates ! k) = [] \<longrightarrow> last_assigned_staff st' = None)
         \<and> (0 < k \<and> dates ! (k - 1) \<notin> closure_days \<longrightarrow>
               (\<exists>p. rota_loop random_choice pad closure_days (take (k - 1) dates)
                      (init_state g roster) = Inr p
                  \<and> rota_step random_choice pad closure_days (dates ! (k - 1)) p = Inr st
                  \<and> (base_pool (staff p) (dates ! (k - 1)) \<noteq> [] \<longrightarrow>
                        (\<exists>j \<in> set (base_pool (staff p) (dates ! (k - 1))).
                            Shift (rota_data fin ! (k - 1)) = Some (name (staff p ! j))
                            \<and> last_assigned_staff st = Some (name (staff p ! j))))))
         \<and> (\<forall>l. last_assigned_staff st = Some l \<longrightarrow>
               0 < k \<and> Shift (rota_data fin ! (k - 1)) = Some l
             \<and> ((\<exists>i \<in> set (base_pool (staff st) (dates ! k)). name (staff st ! i) \<noteq> l)
                    \<longrightarrow> Shift (rota_data fin ! k) \<noteq> Some l)
             \<and> (Shift (rota_data fin ! k) = Some l \<and> l \<noteq> ''UNASSIGNED''
                  \<and> distinct (map name roster)
                    \<longrightarrow> (\<exists>j. base_pool (staff st) (dates ! k) = [j] \<and> name (roster ! j) = l)))"
proof -
  let ?d = "dates ! k"
  from run_view [OF choice_sound_random assms(1), of pad closure_days g roster]
  obtain st st' fin where
    r: "rota_loop random_choice pad closure_days (take k dates) (init_state g roster) = Inr st"
       "rota_step random_choice pad closure_days ?d st = Inr st'"
       "generate_rota_with random_choice pad g dates roster closure_days = Inr fin"
       "rota_data st' = rota_data st @ [rota_data fin ! k]"
    and r5: "rota_loop random_choice pad closure_days (take (Suc k) dates) (init_state g roster) = Inr st'"
    and s: "map name (staff st) = map name roster" by metis
  let ?base = "base_pool (staff st) ?d"
  from step_records [OF choice_sound_random assms(2) r(2) r(4)]
  have rec: "(?base \<noteq> [] \<longrightarrow>
               (\<exists>j \<in> set ?base. Shift (rota_data fin ! k) = Some (name (staff st ! j))
                   \<and> last_assigned_staff st' = Some (name (staff st ! j))))
           \<and> (?base = [] \<longrightarrow> last_assigned_staff st' = None)" by blast
  have before: "\<exists>p. rota_loop random_choice pad closure_days (take (k - 1) dates)
                      (init_state g roster) = Inr p
                  \<and> rota_step random_choice pad closure_days (dates ! (k - 1)) p = Inr st
                  \<and> (base_pool (staff p) (dates ! (k - 1)) \<noteq> [] \<longrightarrow>
                        (\<exists>j \<in> set (base_pool (staff p) (dates ! (k - 1))).
                            Shift (rota_data fin ! (k - 1)) = Some (name (staff p ! j))
                            \<and> last_assigned_staff st = Some (name (staff p ! j))))"
    if k0: "0 < k" and open_day: "dates ! (k - 1) \<notin> closure_days"
  proof -
    from k0 assms(1) have km: "k - 1 < length dates" "Suc (k - 1) = k" by simp_all
    from run_view [OF choice_sound_random km(1), of pad closure_days g roster]
    obtain p p' fin' where
      q: "rota_loop random_choice pad closure_days (take (k - 1) dates) (init_state g roster) = Inr p"
         "rota_step random_choice pad closure_days (dates ! (k - 1)) p = Inr p'"
         "rota_loop random_choice pad closure_days (take (Suc (k - 1)) dates) (init_state g roster) = Inr p'"
         "generate_rota_with random_choice pad g dates roster closure_days = Inr fin'"
         "rota_data p' = rota_data p @ [rota_data fin' ! (k - 1)]" by metis
    from q(3) r(1) km(2) have ps: "p' = st" by simp
    from q(4) r(3) have ff: "fin' = fin" by simp
    from step_records [OF choice_sound_random open_day q(2) q(5)] ps ff
    have "base_pool (staff p) (dates ! (k - 1)) \<noteq> [] \<longrightarrow>
            (\<exists>j \<in> set (base_pool (staff p) (dates ! (k - 1))).
                Shift (rota_data fin ! (k - 1)) = Some (name (staff p ! j))
                \<and> last_assigned_staff st = Some (name (staff p ! j)))" by simp
    with q(1) q(2) ps show ?thesis by blast
  qed
  have "0 < k \<and> Shift (rota_data fin ! (k - 1)) = Some l
             \<and> ((\<exists>i \<in> set ?base. name (staff st ! i) \<noteq> l)
                    \<longrightarrow> Shift (rota_data fin ! k) \<noteq> Some l)
             \<and> (Shift (rota_data fin ! k) = Some l \<and> l \<noteq> ''UNASSIGNED''
                  \<and> distinct (map name roster)
                    \<longrightarrow> (\<exists>j. ?base = [j] \<and> name (roster ! j) = l))"
    if l: "last_assigned_staff st = Some l" for l
  proof -
    have k0: "0 < k"
    proof (rule ccontr)
      assume "\<not> 0 < k"
      with r(1) have "st = init_state g roster" by simp
      with l show False by (simp add: init_state_def)
    qed
    hence km: "k - 1 < length dates" "Suc (k - 1) = k" using assms(1) by simp_all
    from run_view [OF choice_sound_random km(1), of pad closure_days g roster]
    obtain p p' fin' where
      q: "rota_step random_choice pad closure_days (dates ! (k - 1)) p = Inr p'"
         "rota_loop random_choice pad closure_days (take (Suc (k - 1)) dates) (init_state g roster) = Inr p'"
         "generate_rota_with random_choice pad g dates roster closure_days = Inr fin'"
         "rota_data p' = rota_data p @ [rota_data fin' ! (k - 1)]" by metis
    from q(2) r(1) km(2) have "p' = st" by simp
    moreover from q(3) r(3) have "fin' = fin" by simp
    ultimately have prev: "Shift (rota_data fin ! (k - 1)) = Some l"
      using last_is_previous_shift [OF choice_sound_random q(1) q(4)] l by simp
    have pool: "day_pool (staff st) (Some l) ?d =
                  (if [i \<leftarrow> ?base. name (staff st ! i) \<noteq> l] \<noteq> []
                   then [i \<leftarrow> ?base. name (staff st ! i) \<noteq> l] else ?base)"
      by (simp add: day_pool_def avoid_last_def Let_def)
    from step_cases [OF choice_sound_random r(2) r(4)] assms(2) l
    consider (un) "day_pool (staff st) (Some l) ?d = []"
        "rota_data fin ! k = open_entry pad (staff st) ?d ''UNASSIGNED''"
      | (as) j where "j \<in> set (day_pool (staff st) (Some l) ?d)"
        "rota_data fin ! k = open_entry pad (staff st) ?d (name (staff st ! j))"
      by auto
    hence main: "((\<exists>i \<in> set ?base. name (staff st ! i) \<noteq> l) \<longrightarrow> Shift (rota_data fin ! k) \<noteq> Some l)
         \<and> (Shift (rota_data fin ! k) = Some l \<and> l \<noteq> ''UNASSIGNED'' \<longrightarrow>
               ?base \<noteq> [] \<and> (\<forall>i \<in> set ?base. name (staff st ! i) = l))"
    proof cases
      case un
      from un(1) have "?base = []" by (simp add: day_pool_def)
      with un(2) show ?thesis by (simp add: open_entry_def)
    next
      case as
      show ?thesis
      proof (cases "[i \<leftarrow> ?base. name (staff st ! i) \<noteq> l] = []")
        case True
        hence all: "\<forall>i \<in> set ?base. name (staff st ! i) = l" by (simp add: filter_empty_conv)
        from as(1) True pool have "?base \<noteq> []" by auto
        with all show ?thesis by auto
      next
        case False
        with as(1) pool have "name (staff st ! j) \<noteq> l" by auto
        with as(2) False show ?thesis by (auto simp: open_entry_def filter_empty_conv)
      qed
    qed
    have sole: "\<exists>j. ?base = [j] \<and> name (roster ! j) = l"
      if a: "Shift (rota_data fin ! k) = Some l" "l \<noteq> ''UNASSIGNED''" "distinct (map name roster)"
    proof -
      from main a have ne: "?base \<noteq> []" and all: "\<forall>i \<in> set ?base. name (staff st ! i) = l" by auto
      have lt: "\<forall>i \<in> set ?base. i < length (staff st)"
        using set_base_pool_eligible by blast
      from a(3) s have "distinct (map name (staff st))" by simp
      from names_all_equal_singleton [OF this distinct_base_pool ne lt all]
      obtain j where j: "?base = [j]" by blast
      with all lt have "name (staff st ! j) = l" "j < length (staff st)" by simp_all
      moreover have "length (staff st) = length roster" using s by (metis length_map)
      ultimately have "name (roster ! j) = l" using nth_of_map_eq(2) [OF s, of j] by simp
      with j show ?thesis by blast
    qed
    from k0 prev main sole show ?thesis by blast
  qed
  hence avoid: "\<forall>l. last_assigned_staff st = Some l \<longrightarrow>
               0 < k \<and> Shift (rota_data fin ! (k - 1)) = Some l
             \<and> ((\<exists>i \<in> set ?base. name (staff st ! i) \<noteq> l)
                    \<longrightarrow> Shift (rota_data fin ! k) \<noteq> Some l)
             \<and> (Shift (rota_data fin ! k) = Some l \<and> l \<noteq> ''UNASSIGNED''
                  \<and> distinct (map name roster)
                    \<longrightarrow> (\<exists>j. ?base = [j] \<and> name (roster ! j) = l))" by blast
  from r(3) have g: "generate_rota pad g dates roster closure_days = Inr fin"
    by (simp add: generate_rota_def)
  from before have before': "0 < k \<and> dates ! (k - 1) \<notin> closure_days \<longrightarrow>
               (\<exists>p. rota_loop random_choice pad closure_days (take (k - 1) dates)
                      (init_state g roster) = Inr p
                  \<and> rota_step random_choice pad closure_days (dates ! (k - 1)) p = Inr st
                  \<and> (base_pool (staff p) (dates ! (k - 1)) \<noteq> [] \<longrightarrow>
                        (\<exists>j \<in> set (base_pool (staff p) (dates ! (k - 1))).
                            Shift (rota_data fin ! (k - 1)) = Some (name (staff p ! j))
                            \<and> last_assigned_staff st = Some (name (staff p ! j)))))" by blast
  show ?thesis
    by (intro exI conjI) (rule r(1), rule r(2), rule r5, rule g,
        rule conjunct1 [OF rec], rule conjunct2 [OF rec], rule before', rule avoid)
qed

section \<open>Invariants of a run\<close>

lemma rota_loop_invariant:
  assumes step: "\<And>d st st'. P st \<Longrightarrow> rota_step choice pad cl d st = Inr st' \<Longrightarrow> P st'"
  shows "P st \<Longrightarrow> rota_loop choice pad cl dates st = Inr st' \<Longrightarrow> P st'"
proof (induction dates arbitrary: st)
  case Nil
  thus ?case by simp
next
  case (Cons d ds)
  from Cons.prems(2) obtain st1 where
    s1: "rota_step choice pad cl d st = Inr st1" and l: "rota_loop choice pad cl ds st1 = Inr st'"
    by (auto split: sum.splits)
  from step [OF Cons.prems(1) s1] have "P st1" .
  from Cons.IH [OF this l] show ?case .
qed

lemma counts_ok_mono: "counts_ok D stf \<Longrightarrow> D \<subseteq> D' \<Longrightarrow> counts_ok D' stf"
  by (auto simp: counts_ok_def)

lemma counts_ok_assign:
  assumes ok: "counts_ok D stf" and d: "d \<notin> D" and j: "j < length stf"
  shows "counts_ok (insert d D) (assign_to d j stf)"
  unfolding counts_ok_def
proof (intro ballI)
  fix s assume s: "s \<in> set (assign_to d j stf)"
  let ?x = "(stf ! j)\<lparr>assigned_dates := insert d (assigned_dates (stf ! j)),
                      shift_count := shift_count (stf ! j) + 1\<rparr>"
  from ok j have sj: "finite (assigned_dates (stf ! j))" "assigned_dates (stf ! j) \<subseteq> D"
    "int (card (assigned_dates (stf ! j))) = shift_count (stf ! j)"
    by (auto simp: counts_ok_def)
  with d have dn: "d \<notin> assigned_dates (stf ! j)" by auto
  have "set (assign_to d j stf) \<subseteq> insert ?x (set stf)"
    unfolding assign_to_def by (rule set_update_subset_insert)
  with s have "s = ?x \<or> s \<in> set stf" by auto
  thus "finite (assigned_dates s) \<and> assigned_dates s \<subseteq> insert d D
          \<and> int (card (assigned_dates s)) = shift_count s"
  proof
    assume "s = ?x"
    with sj dn show ?thesis by auto
  next
    assume "s \<in> set stf"
    with ok show ?thesis by (auto simp: counts_ok_def)
  qed
qed

lemma counts_ok_step:
  assumes cs: "choice_sound choice" and ok: "counts_ok D (staff st)" and d: "d \<notin> D"
    and step: "rota_step choice pad cl d st = Inr st'"
  shows "counts_ok (insert d D) (staff st')"
proof -
  from rota_step_shape [OF cs step] obtain e where e: "rota_data st' = rota_data st @ [e]" by blast
  from step_cases [OF cs step e]
  consider "staff st' = staff st"
    | j where "j \<in> set (day_pool (staff st) (last_assigned_staff st) d)"
        "staff st' = assign_to d j (staff st)" by auto
  thus ?thesis
  proof cases
    case 1
    with counts_ok_mono [OF ok, of "insert d D"] show ?thesis by auto
  next
    case 2
    from set_day_pool_eligible [OF 2(1)] have "j < length (staff st)" by simp
    from counts_ok_assign [OF ok d this] 2(2) show ?thesis by simp
  qed
qed

lemma counts_ok_loop:
  assumes cs: "choice_sound choice"
  shows "distinct dates \<Longrightarrow> set dates \<inter> D = {} \<Longrightarrow> counts_ok D (staff st)
         \<Longrightarrow> rota_loop choice pad cl dates st = Inr st' \<Longrightarrow> counts_ok (D \<union> set dates) (staff st')"
proof (induction dates arbitrary: st D)
  case Nil
  thus ?case by simp
next
  case (Cons d ds)
  from Cons.prems(4) obtain st1 where
    s1: "rota_step choice pad cl d st = Inr st1" and l: "rota_loop choice pad cl ds st1 = Inr st'"
    by (auto split: sum.splits)
  from Cons.prems(2) have d: "d \<notin> D" by simp
  from counts_ok_step [OF cs Cons.prems(3) d s1] have ok1: "counts_ok (insert d D) (staff st1)" .
  from Cons.prems(1,2) have "distinct ds" "set ds \<inter> insert d D = {}" by auto
  from Cons.IH [OF this ok1 l] show ?case by simp
qed

lemma counts_ok_reset: "counts_ok {} (reset_staff roster)"
  by (auto simp: counts_ok_def reset_staff_def)

text \<open>
  Claim C8. On a sequence of distinct dates, started from the reset staff list: after each
  date of the sequence (after the first \<open>k\<close> dates, for every \<open>k\<close>), every staff member
  has as many assigned dates as their shift count says.
\<close>

theorem assigned_dates_match_shift_count:
  assumes "distinct dates" and "k \<le> length dates"
  shows "\<exists>st. rota_loop random_choice pad closure_days (take k dates)
                 (init_state g (reset_staff roster)) = Inr st
            \<and> (\<forall>s \<in> set (staff st).
                  finite (assigned_dates s) \<and> int (card (assigned_dates s)) = shift_count s)"
proof -
  from rota_loop_total [OF choice_sound_random] obtain st where
    st: "rota_loop random_choice pad closure_days (take k dates)
           (init_state g (reset_staff roster)) = Inr st" by blast
  from assms(1) have "distinct (take k dates)" by simp
  from counts_ok_loop [OF choice_sound_random this _ _ st, of "{}"] counts_ok_reset [of roster]
  have "counts_ok (set (take k dates)) (staff st)" by (simp add: init_state_def)
  with st show ?thesis by (auto simp: counts_ok_def)
qed

lemma sum_list_map_update:
  "j < length xs \<Longrightarrow> sum_list (map f (xs[j := x])) = sum_list (map f xs) - f (xs ! j) + (f x :: int)"
  by (induction xs arbitrary: j) (auto split: nat.splits)

lemma sum_assign_to:
  "j < length stf \<Longrightarrow>
     sum_list (map shift_count (assign_to d j stf)) = sum_list (map shift_count stf) + 1"
  by (simp add: assign_to_def sum_list_map_update)

lemma load_balance_step:
  assumes cs: "choice_sound choice" and inv: "load_balance st"
    and step: "rota_step choice pad cl d st = Inr st'"
  shows "load_balance st'"
proof -
  from rota_step_shape [OF cs step] obtain e where
    n: "map name (staff st') = map name (staff st)" and e: "rota_data st' = rota_data st @ [e]"
    by blast
  from inv n have ns: "no_sentinel_names (staff st')" "no_sentinel_names (staff st)"
    by (simp_all add: load_balance_def no_sentinel_names_def)
  from step_cases [OF cs step e]
  consider (cl) "Shift e = Some ''CLOSED''" "staff st' = staff st"
    | (un) "Shift e = Some ''UNASSIGNED''" "staff st' = staff st"
    | (as) j where "j \<in> set (day_pool (staff st) (last_assigned_staff st) d)"
        "Shift e = Some (name (staff st ! j))" "staff st' = assign_to d j (staff st)"
    by (auto simp: closed_entry_def open_entry_def)
  thus ?thesis
  proof cases
    case cl
    with inv e ns show ?thesis by (simp add: load_balance_def assigned_entries_def)
  next
    case un
    with inv e ns show ?thesis by (simp add: load_balance_def assigned_entries_def)
  next
    case as
    from set_day_pool_eligible [OF as(1)] have j: "j < length (staff st)" by simp
    hence "name (staff st ! j) \<in> set (map name (staff st))" by simp
    with ns(2) have "name (staff st ! j) \<noteq> ''CLOSED''" "name (staff st ! j) \<noteq> ''UNASSIGNED''"
      unfolding no_sentinel_names_def by metis+
    with inv e ns as j show ?thesis
      by (simp add: load_balance_def assigned_entries_def sum_assign_to)
  qed
qed

lemma sum_reset_staff: "sum_list (map shift_count (reset_staff roster)) = 0"
  by (induction roster) (simp_all add: reset_staff_def)

text \<open>
  Claim C6. After a complete run from the reset staff list, when no staff member is named
  \<^verbatim>\<open>CLOSED\<close> or \<^verbatim>\<open>UNASSIGNED\<close>: the shift counts of the staff add up to the number of
  entries whose shift is neither \<^verbatim>\<open>CLOSED\<close> nor \<^verbatim>\<open>UNASSIGNED\<close>.
\<close>

theorem load_conservation:
  assumes "no_sentinel_names roster"
  shows "\<exists>fin. generate_rota pad g dates (reset_staff roster) closure_days = Inr fin
            \<and> sum_list (map shift_count (staff fin)) = int (length (assigned_entries (rota_data fin)))"
proof -
  let ?st0 = "init_state g (reset_staff roster)"
  from rota_loop_total [OF choice_sound_random] obtain fin where
    fin: "rota_loop random_choice pad closure_days dates ?st0 = Inr fin" by blast
  from assms have "load_balance ?st0"
    by (simp add: load_balance_def init_state_def sum_reset_staff assigned_entries_def
                  no_sentinel_names_def reset_staff_def o_def)
  from rota_loop_invariant [of load_balance, OF load_balance_step [OF choice_sound_random] this fin]
  have "load_balance fin" .
  with fin show ?thesis
    by (auto simp: load_balance_def generate_rota_def generate_rota_with_def)
qed

section \<open>The deterministic policy\<close>

lemma first_choice_assign_rng:
  "assign_min first_choice d pool e (st\<lparr>rng_state := g'\<rparr>) =
     (case assign_min first_choice d pool e st of
        Inl err \<Rightarrow> Inl err | Inr (e', s) \<Rightarrow> Inr (e', s\<lparr>rng_state := g'\<rparr>))"
proof (cases "py_min (map (\<lambda>i. shift_count (staff st ! i)) pool)")
  case (Inl err)
  thus ?thesis by (simp add: assign_min_def)
next
  case (Inr m)
  show ?thesis
  proof (cases "[i \<leftarrow> pool. shift_count (staff st ! i) = m]")
    case Nil
    with Inr show ?thesis by (simp add: assign_min_def first_choice_def)
  next
    case (Cons x xs)
    with Inr show ?thesis by (simp add: assign_min_def first_choice_def Let_def)
  qed
qed

lemma first_choice_step_rng:
  "rota_step first_choice pad cl d (st\<lparr>rng_state := g'\<rparr>) =
     (case rota_step first_choice pad cl d st of
        Inl e \<Rightarrow> Inl e | Inr s \<Rightarrow> Inr (s\<lparr>rng_state := g'\<rparr>))"
proof (cases "d \<in> cl")
  case True
  thus ?thesis by (simp add: rota_step_closed)
next
  case False
  let ?e = "\<lparr>Date = strftime_dmY pad d, Day = strftime_A d, Shift = None, Notes = []\<rparr>"
  let ?A = "avoid_last (staff st) (last_assigned_staff st) (available_on (staff st) d)"
  let ?B = "avoid_last (staff st) (last_assigned_staff st) (back_to_back_on (staff st) d)"
  show ?thesis
  proof (cases "?A = []")
    case a: True
    show ?thesis
    proof (cases "?B = []")
      case True
      with a False show ?thesis by (simp add: rota_step_def Let_def)
    next
      case b: False
      show ?thesis
      proof (cases "assign_min first_choice d ?B ?e st")
        case (Inl err)
        with a b False show ?thesis
          by (simp add: rota_step_def Let_def first_choice_assign_rng)
      next
        case (Inr r)
        with a b False show ?thesis
          by (cases r) (simp add: rota_step_def Let_def first_choice_assign_rng)
      qed
    qed
  next
    case a: False
    show ?thesis
    proof (cases "assign_min first_choice d ?A ?e st")
      case (Inl err)
      with a False show ?thesis
        by (simp add: rota_step_def Let_def first_choice_assign_rng)
    next
      case (Inr r)
      with a False show ?thesis
        by (cases r) (simp add: rota_step_def Let_def first_choice_assign_rng)
    qed
  qed
qed

lemma first_choice_loop_rng:
  "rota_loop first_choice pad cl dates (st\<lparr>rng_state := g'\<rparr>) =
     (case rota_loop first_choice pad cl dates st of
        Inl e \<Rightarrow> Inl e | Inr s \<Rightarrow> Inr (s\<lparr>rng_state := g'\<rparr>))"
  by (induction dates arbitrary: st) (auto simp: first_choice_step_rng split: sum.splits)

text \<open>
  Claim C9. With the tie-break replaced by the policy that always picks the first candidate
  in listed order, a run returns, and any second run on the same dates, closure set and
  roster returns the same rows and leaves the same staff list, whatever the state of the
  random generator at its start: the generator was the only source of difference.
\<close>

theorem first_choice_deterministic:
  "\<exists>fin. generate_rota_with first_choice pad (g::'g) dates roster closure_days = Inr fin
      \<and> (\<forall>g'::'g. \<exists>fin'. generate_rota_with first_choice pad g' dates roster closure_days = Inr fin'
              \<and> rota_data fin' = rota_data fin \<and> staff fin' = staff fin)"
proof -
  from rota_loop_total [OF choice_sound_first] obtain fin where
    fin: "rota_loop first_choice pad closure_days dates (init_state g roster) = Inr fin" by blast
  have "rota_loop first_choice pad closure_days dates (init_state g' roster) = Inr (fin\<lparr>rng_state := g'\<rparr>)" for g' :: 'g
  proof -
    have "init_state g' roster = (init_state g roster)\<lparr>rng_state := g'\<rparr>"
      by (simp add: init_state_def)
    thus ?thesis by (simp only: first_choice_loop_rng fin sum.case)
  qed
  hence run': "generate_rota_with first_choice pad g' dates roster closure_days = Inr (fin\<lparr>rng_state := g'\<rparr>)" for g' :: 'g
    by (simp add: generate_rota_with_def)
  show ?thesis
  proof (rule exI [of _ fin], intro conjI allI)
    show "generate_rota_with first_choice pad g dates roster closure_days = Inr fin"
      using fin by (simp add: generate_rota_with_def)
  next
    fix g' :: 'g
    show "\<exists>fin'. generate_rota_with first_choice pad g' dates roster closure_days = Inr fin'
              \<and> rota_data fin' = rota_data fin \<and> staff fin' = staff fin"
      by (rule exI [of _ "fin\<lparr>rng_state := g'\<rparr>"]) (simp add: run')
  qed
qed

section \<open>The working days of a month\<close>

lemma strftime_day_inj:
  assumes a: "valid_date a" and b: "valid_date b" and eq: "strftime_dmY pad a = strftime_dmY pad b"
  shows "date_day a = date_day b"
proof -
  have d31: "1 \<le> date_day d \<and> date_day d \<le> 31" if "valid_date d" for d
  proof -
    from that have m: "1 \<le> date_month d" "date_month d \<le> 12" by (simp_all add: valid_date_def)
    from days_in_month_range(2) [OF m, of "date_year d"] that show ?thesis
      by (simp add: valid_date_def)
  qed
  have md: "match_d (strftime_dmY pad d) \<noteq> None \<and> fst (the (match_d (strftime_dmY pad d))) = date_day d"
    if "valid_date d" for d
    using d31 [OF that] by (simp add: strftime_dmY_def match_d_fmt)
  from md [OF a] md [OF b] eq show ?thesis by simp
qed

lemma strftime_inj_on_month:
  "inj_on (strftime_dmY pad) {d. valid_date d \<and> date_year d = y \<and> date_month d = m}"
proof (rule inj_onI)
  fix a b
  assume "a \<in> {d. valid_date d \<and> date_year d = y \<and> date_month d = m}"
    and "b \<in> {d. valid_date d \<and> date_year d = y \<and> date_month d = m}"
    and "strftime_dmY pad a = strftime_dmY pad b"
  with strftime_day_inj [of a b pad] show "a = b" by simp
qed

lemma set_working_dates:
  assumes "1 \<le> y" "y \<le> 9999" "1 \<le> m" "m \<le> 12"
  shows "set (working_dates y m) =
           {d. valid_date d \<and> date_year d = y \<and> date_month d = m \<and> date_weekday d < 5}"
proof -
  have "set (month_dates y m) = {d. valid_date d \<and> date_year d = y \<and> date_month d = m}"
  proof (rule set_eqI)
    fix d :: date
    show "d \<in> set (month_dates y m) \<longleftrightarrow> d \<in> {d. valid_date d \<and> date_year d = y \<and> date_month d = m}"
      using assms
      by (cases d) (auto simp: month_dates_def valid_date_def MINYEAR_def MAXYEAR_def)
  qed
  thus ?thesis by (auto simp: working_dates_def)
qed

lemma distinct_working_dates: "distinct (working_dates y m)"
proof -
  have "inj (\<lambda>d. \<lparr>date_year = y, date_month = m, date_day = d\<rparr>)"
    by (rule injI) simp
  hence "distinct (month_dates y m)"
    unfolding month_dates_def by (simp add: distinct_map inj_on_def)
  thus ?thesis by (simp add: working_dates_def)
qed

text \<open>
  Claim C2. For every year from 1 to 9999 and month from 1 to 12 (the years and months of
  a \<^verbatim>\<open>datetime.date\<close>) and every roster and closure set: \<^verbatim>\<open>generate_dates\<close> returns the
  working days of the month, that is the valid dates of that year and month whose weekday
  is Monday to Friday, each once and in ascending order; the engine run on them returns
  one entry per date, in the same order, the entry at position \<open>k\<close> carrying the date at
  position \<open>k\<close>; no two entries carry the same date string.
\<close>

theorem one_entry_per_working_day:
  assumes "1 \<le> y" and "y \<le> 9999" and "1 \<le> m" and "m \<le> 12"
  shows "\<exists>fin. generate_dates y m = Inr (working_dates y m)
            \<and> set (working_dates y m) =
                 {d. valid_date d \<and> date_year d = y \<and> date_month d = m \<and> date_weekday d < 5}
            \<and> sorted_wrt date_lt (working_dates y m)
            \<and> distinct (working_dates y m)
            \<and> generate_rota pad g (working_dates y m) roster closure_days = Inr fin
            \<and> length (rota_data fin) = length (working_dates y m)
            \<and> (\<forall>k < length (working_dates y m).
                   Date (rota_data fin ! k) = strftime_dmY pad (working_dates y m ! k))
            \<and> distinct (map Date (rota_data fin))"
proof -
  let ?ds = "working_dates y m"
  from rota_loop_total [OF choice_sound_random] obtain fin where
    fin: "rota_loop random_choice pad closure_days ?ds (init_state g roster) = Inr fin" by blast
  from rota_loop_shape [OF choice_sound_random fin]
  have dates: "map Date (rota_data fin) = map (strftime_dmY pad) ?ds"
    by (auto simp: init_state_def)
  hence len: "length (rota_data fin) = length ?ds" by (metis length_map)
  have nth: "\<forall>k < length ?ds. Date (rota_data fin ! k) = strftime_dmY pad (?ds ! k)"
  proof (intro allI impI)
    fix k assume k: "k < length ?ds"
    with len have "map Date (rota_data fin) ! k = Date (rota_data fin ! k)" by simp
    moreover from k have "map (strftime_dmY pad) ?ds ! k = strftime_dmY pad (?ds ! k)" by simp
    ultimately show "Date (rota_data fin ! k) = strftime_dmY pad (?ds ! k)" using dates by simp
  qed
  have "inj_on (strftime_dmY pad) (set ?ds)"
    by (rule inj_on_subset [OF strftime_inj_on_month [of pad y m]])
       (auto simp: set_working_dates [OF assms])
  with distinct_working_dates [of y m] have "distinct (map (strftime_dmY pad) ?ds)"
    by (simp add: distinct_map)
  with dates have "distinct (map Date (rota_data fin))" by simp
  with generate_dates_eq [OF assms] set_working_dates [OF assms] working_dates_sorted [of y m]
    distinct_working_dates [of y m] fin len nth
  show ?thesis
    by (auto simp: generate_rota_def generate_rota_with_def)
qed

section \<open>Date strings and the validator\<close>

lemma holiday_rows_empty:
  assumes "\<forall>s \<in> set stf. \<not> (Shift row = Some (name s) \<and> d \<in> holidays s)"
  shows "[Assigned_on_holiday (name s) (Date row).
            s \<leftarrow> stf, Shift row = Some (name s) \<and> d \<in> holidays s] = []"
  using assms by (induction stf) auto

lemma validate_row_parsed:
  assumes "strptime_dmY (Date row) = Inr d"
    and "\<forall>s \<in> set stf. \<not> (Shift row = Some (name s) \<and> d \<in> holidays s)"
  shows "validate_row stf row = []"
  using holiday_rows_empty [OF assms(2)] by (simp add: validate_row_def assms(1))

lemma validate_row_unparsed:
  assumes "strptime_dmY (Date row) = Inl err"
  shows "validate_row stf row = [Invalid_date_format (Date row)]"
  by (simp add: validate_row_def assms)

lemma validate_row_parsed_kind:
  assumes "strptime_dmY (Date row) = Inr d"
  shows "Invalid_date_format x \<notin> set (validate_row stf row)"
  by (auto simp: validate_row_def assms)

lemma in_validate_warnings:
  "w \<in> set (validate_warnings df stf) \<longleftrightarrow> (\<exists>k < length df. w \<in> set (validate_row stf (df ! k)))"
proof -
  have "w \<in> set (validate_warnings df stf) \<longleftrightarrow> (\<exists>row \<in> set df. w \<in> set (validate_row stf row))"
    by (simp add: validate_warnings_def)
  also have "\<dots> \<longleftrightarrow> (\<exists>k < length df. w \<in> set (validate_row stf (df ! k)))"
    by (metis in_set_conv_nth)
  finally show ?thesis .
qed

lemma run_dates:
  obtains fin where
    "generate_rota pad g dates roster closure_days = Inr fin"
    "length (rota_data fin) = length dates"
    "\<forall>k < length dates. Date (rota_data fin ! k) = strftime_dmY pad (dates ! k)"
    "map name (staff fin) = map name roster" "map holidays (staff fin) = map holidays roster"
proof -
  from rota_loop_total [OF choice_sound_random] obtain fin where
    fin: "rota_loop random_choice pad closure_days dates (init_state g roster) = Inr fin" by blast
  from rota_loop_shape [OF choice_sound_random fin]
  have s: "map name (staff fin) = map name roster" "map holidays (staff fin) = map holidays roster"
    and dates: "map Date (rota_data fin) = map (strftime_dmY pad) dates"
    by (auto simp: init_state_def)
  from dates have len: "length (rota_data fin) = length dates" by (metis length_map)
  have "\<forall>k < length dates. Date (rota_data fin ! k) = strftime_dmY pad (dates ! k)"
  proof (intro allI impI)
    fix k assume k: "k < length dates"
    with len have "map Date (rota_data fin) ! k = Date (rota_data fin ! k)" by simp
    moreover from k have "map (strftime_dmY pad) dates ! k = strftime_dmY pad (dates ! k)" by simp
    ultimately show "Date (rota_data fin ! k) = strftime_dmY pad (dates ! k)" using dates by simp
  qed
  with fin s len that show ?thesis
    by (simp add: generate_rota_def generate_rota_with_def)
qed

text \<open>
  Claim C10, as amended. For dates that are valid and whose year has four digits (or on a
  platform whose \<^verbatim>\<open>strftime\<close> pads the year to four digits): every date string that the
  engine writes is the date formatted with \<^verbatim>\<open>%d/%m/%Y\<close> and parses back under the same
  format to that date, and the validator run on the schedule emits no invalid-date-format
  warning.
\<close>

theorem date_strings_parse_back:
  assumes "\<forall>d \<in> set dates. valid_date d \<and> (pad \<or> 1000 \<le> date_year d)"
  shows "\<exists>fin. generate_rota pad g dates roster closure_days = Inr fin
            \<and> (\<forall>k < length dates.
                   Date (rota_data fin ! k) = strftime_dmY pad (dates ! k)
                   \<and> strptime_dmY (Date (rota_data fin ! k)) = Inr (dates ! k))
            \<and> (\<forall>x. Invalid_date_format x \<notin> set (validate_warnings (rota_data fin) (staff fin)))"
proof -
  from run_dates [of pad g dates roster closure_days] obtain fin where
    fin: "generate_rota pad g dates roster closure_days = Inr fin"
    and len: "length (rota_data fin) = length dates"
    and dt: "\<forall>k < length dates. Date (rota_data fin ! k) = strftime_dmY pad (dates ! k)"
    by metis
  have parse: "strptime_dmY (Date (rota_data fin ! k)) = Inr (dates ! k)" if "k < length dates" for k
  proof -
    from that assms have "valid_date (dates ! k)" "pad \<or> 1000 \<le> date_year (dates ! k)"
      by (simp_all add: nth_mem)
    from strptime_strftime [OF this] dt that show ?thesis by simp
  qed
  have "Invalid_date_format x \<notin> set (validate_warnings (rota_data fin) (staff fin))" for x
    using parse len validate_row_parsed_kind
    by (fastforce simp: in_validate_warnings)
  with fin dt parse show ?thesis by blast
qed

lemma same_name_same_member:
  assumes d: "distinct (map name roster)" and j: "j < length roster"
    and s: "s \<in> set roster" and n: "name s = name (roster ! j)"
  shows "s = roster ! j"
proof -
  from s obtain i where i: "i < length roster" "roster ! i = s" by (auto simp: in_set_conv_nth)
  with n j have "map name roster ! i = map name roster ! j" by simp
  with nth_eq_iff_index_eq [OF d, of i j] i j have "i = j" by simp
  with i show ?thesis by simp
qed

lemma member_of_final_staff:
  fixes stf' roster :: "staff_member list"
  assumes "map name stf' = map name roster" "map holidays stf' = map holidays roster"
    and "s \<in> set stf'"
  shows "\<exists>r \<in> set roster. name r = name s \<and> holidays r = holidays s"
proof -
  from assms(3) obtain i where i: "i < length stf'" "stf' ! i = s" by (auto simp: in_set_conv_nth)
  from assms(1) have l: "length stf' = length roster" by (metis length_map)
  with i have ir: "i < length roster" by simp
  from nth_of_map_eq(2) [OF assms(1) ir] nth_of_map_eq(2) [OF assms(2) ir] i
  have "name (roster ! i) = name s" "holidays (roster ! i) = holidays s" by simp_all
  with ir show ?thesis by (metis nth_mem)
qed

text \<open>
  Claim C1. For a roster with distinct names, none of them \<^verbatim>\<open>CLOSED\<close> or \<^verbatim>\<open>UNASSIGNED\<close>,
  and a sequence of valid dates (whatever the assigned dates and shift counts at the
  start): in the schedule the engine returns, an entry whose shift is a staff member's
  name has a date outside that member's holidays, and the validator run on the schedule
  emits no holiday-conflict warning; where the date strings parse back (see C10), it
  returns no warning at all.
\<close>

theorem no_assignment_on_holiday:
  assumes "distinct (map name roster)" and "no_sentinel_names roster"
    and "\<forall>d \<in> set dates. valid_date d"
  shows "\<exists>fin. generate_rota pad g dates roster closure_days = Inr fin
            \<and> (\<forall>k < length dates. \<forall>s \<in> set roster.
                   Shift (rota_data fin ! k) = Some (name s) \<longrightarrow> dates ! k \<notin> holidays s)
            \<and> (\<forall>n x. Assigned_on_holiday n x \<notin> set (validate_warnings (rota_data fin) (staff fin)))
            \<and> (pad \<or> (\<forall>d \<in> set dates. 1000 \<le> date_year d)
                  \<longrightarrow> validate_shifts (rota_data fin) (staff fin) = [])"
proof -
  from run_dates [of pad g dates roster closure_days] obtain fin where
    fin: "generate_rota pad g dates roster closure_days = Inr fin"
    and len: "length (rota_data fin) = length dates"
    and dt: "\<forall>k < length dates. Date (rota_data fin ! k) = strftime_dmY pad (dates ! k)"
    and sf: "map name (staff fin) = map name roster" "map holidays (staff fin) = map holidays roster"
    by metis
  have free: "dates ! k \<notin> holidays s"
    if k: "k < length dates" and s: "s \<in> set roster"
      and sh: "Shift (rota_data fin ! k) = Some (name s)" for k s
  proof -
    let ?d = "dates ! k"
    from run_view [OF choice_sound_random k, of pad closure_days g roster]
    obtain st st' fin' where
      r: "rota_step random_choice pad closure_days ?d st = Inr st'"
         "generate_rota_with random_choice pad g dates roster closure_days = Inr fin'"
         "rota_data st' = rota_data st @ [rota_data fin' ! k]"
      and st: "map name (staff st) = map name roster" "map holidays (staff st) = map holidays roster"
      by metis
    from r(2) fin have ff: "fin' = fin" by (simp add: generate_rota_def)
    from s have "name s \<in> set (map name roster)" by simp
    with assms(2) have ns: "name s \<noteq> ''CLOSED''" "name s \<noteq> ''UNASSIGNED''"
      unfolding no_sentinel_names_def by metis+
    from step_cases [OF choice_sound_random r(1) r(3)] sh ns ff
    obtain j where j: "j \<in> set (day_pool (staff st) (last_assigned_staff st) ?d)"
      "rota_data fin ! k = open_entry pad (staff st) ?d (name (staff st ! j))"
      by (auto simp: closed_entry_def open_entry_def)
    from set_day_pool_eligible [OF j(1)] have jl: "j < length (staff st)"
      and el: "eligible (staff st ! j) ?d" by simp_all
    from st(1) have "length (staff st) = length roster" by (metis length_map)
    with jl have jr: "j < length roster" by simp
    from j(2) sh have "name s = name (staff st ! j)" by (simp add: open_entry_def)
    with nth_of_map_eq(2) [OF st(1) jr] have "name s = name (roster ! j)" by simp
    from same_name_same_member [OF assms(1) jr s this] have "s = roster ! j" .
    moreover from el nth_of_map_eq(2) [OF st(2) jr] have "?d \<notin> holidays (roster ! j)"
      by (simp add: eligible_def)
    ultimately show ?thesis by simp
  qed
  have row: "\<forall>s \<in> set (staff fin). \<not> (Shift (rota_data fin ! k) = Some (name s) \<and> dates ! k \<in> holidays s)"
    if k: "k < length dates" for k
  proof (intro ballI notI)
    fix s assume s: "s \<in> set (staff fin)"
      and c: "Shift (rota_data fin ! k) = Some (name s) \<and> dates ! k \<in> holidays s"
    from member_of_final_staff [OF sf s] obtain r where
      r: "r \<in> set roster" "name r = name s" "holidays r = holidays s" by blast
    with free [OF k r(1)] c show False by simp
  qed
  have cases: "strptime_dmY (Date (rota_data fin ! k)) = Inr (dates ! k)
                 \<or> strptime_dmY (Date (rota_data fin ! k)) = Inl ValueError"
    if k: "k < length dates" for k
  proof -
    from k assms(3) have "valid_date (dates ! k)" by simp
    from strptime_strftime_cases [OF this, of pad] dt k show ?thesis by simp
  qed
  have none: "Assigned_on_holiday n x \<notin> set (validate_warnings (rota_data fin) (staff fin))" for n x
  proof
    assume "Assigned_on_holiday n x \<in> set (validate_warnings (rota_data fin) (staff fin))"
    then obtain k where k: "k < length dates"
      and w: "Assigned_on_holiday n x \<in> set (validate_row (staff fin) (rota_data fin ! k))"
      using len by (auto simp: in_validate_warnings)
    from cases [OF k] show False
    proof
      assume "strptime_dmY (Date (rota_data fin ! k)) = Inr (dates ! k)"
      from validate_row_parsed [OF this row [OF k]] w show False by simp
    next
      assume "strptime_dmY (Date (rota_data fin ! k)) = Inl ValueError"
      from validate_row_unparsed [OF this] w show False by simp
    qed
  qed
  have clean: "validate_shifts (rota_data fin) (staff fin) = []"
    if p: "pad \<or> (\<forall>d \<in> set dates. 1000 \<le> date_year d)"
  proof -
    have "validate_row (staff fin) (rota_data fin ! k) = []" if k: "k < length dates" for k
    proof -
      from k assms(3) p have "valid_date (dates ! k)" "pad \<or> 1000 \<le> date_year (dates ! k)"
        by auto
      from strptime_strftime [OF this] dt k
      have "strptime_dmY (Date (rota_data fin ! k)) = Inr (dates ! k)" by simp
      from validate_row_parsed [OF this row [OF k]] show ?thesis .
    qed
    hence "w \<notin> set (validate_warnings (rota_data fin) (staff fin))" for w
      unfolding in_validate_warnings using len by simp
    hence "validate_warnings (rota_data fin) (staff fin) = []"
      by (cases "validate_warnings (rota_data fin) (staff fin)") auto
    thus ?thesis by (simp add: validate_shifts_def)
  qed
  from fin free none clean show ?thesis by blast
qed

section \<open>Two runs, evaluated\<close>

text \<open>
  The first run: the first days of June 2026 with the holidays of \<open>away_roster\<close> and no
  closure day. Jane works on Mondays but is away on the 1st, so Sarmad works Monday; he is
  the only one left on Tuesday and works again; only Claire is left on Wednesday. On
  Thursday both are eligible, Claire with one shift and Sarmad with two; Claire worked the
  day before, so the engine selects Sarmad (position 4 of the roster) although Claire
  (position 3) has fewer shifts.
\<close>

lemma before_thursday_run:
  "rota_loop random_choice False {} [june_2026 1, june_2026 2, june_2026 3]
     (init_state zero_draws away_roster) = Inr before_thursday"
proof -
  from rota_loop_total [OF choice_sound_random] obtain st where
    "rota_loop random_choice False {} [june_2026 1, june_2026 2, june_2026 3]
       (init_state zero_draws away_roster) = Inr st" by blast
  thus ?thesis by (simp add: before_thursday_def)
qed

lemma before_thursday_generated:
  "generate_rota False zero_draws [june_2026 1, june_2026 2, june_2026 3] away_roster {}
     = Inr before_thursday"
  using before_thursday_run by (simp add: generate_rota_def generate_rota_with_def)

lemma after_thursday_step:
  "rota_step random_choice False {} (june_2026 4) before_thursday = Inr after_thursday"
proof -
  from rota_step_total [OF choice_sound_random] obtain st where
    "rota_step random_choice False {} (june_2026 4) before_thursday = Inr st" by blast
  thus ?thesis by (simp add: after_thursday_def)
qed

lemma away_roster_holidays:
  "map holidays away_roster =
     [{june_2026 2, june_2026 3}, {june_2026 1, june_2026 2, june_2026 3},
      {june_2026 2, june_2026 3}, {}, {}]"
  by (simp add: away_roster_def)

lemma away_roster_monday:
  "[i \<leftarrow> [0 ..< length away_roster].
      date_weekday (june_2026 1) \<in> set (office_days (away_roster ! i))] = [1, 4]"
  by code_simp

lemma away_roster_wednesday:
  "[i \<leftarrow> [0 ..< length away_roster].
      date_weekday (june_2026 3) \<in> set (office_days (away_roster ! i))] = [0, 1, 2, 3]"
  by code_simp

lemma after_thursday_staff:
  "staff after_thursday = assign_to (june_2026 4) 4 (staff before_thursday)"
  by code_simp

lemma before_thursday_claire:
  "eligible_today (staff before_thursday ! 3) (june_2026 4)"
  by code_simp

lemma before_thursday_counts:
  "shift_count (staff before_thursday ! 3) < shift_count (staff before_thursday ! 4)"
  by code_simp

lemma before_thursday_shifts:
  "map Shift (rota_data before_thursday) = [Some ''Sarmad'', Some ''Sarmad'', Some ''Claire'']"
  by code_simp

lemma before_thursday_last: "last_assigned_staff before_thursday = Some ''Claire''"
  by code_simp

lemma before_thursday_shift_counts: "map shift_count (staff before_thursday) = [0, 0, 0, 1, 2]"
  by code_simp

lemma before_thursday_names:
  "map name (staff before_thursday) = [''John'', ''Jane'', ''Cheryl'', ''Claire'', ''Sarmad'']"
  by code_simp

lemma before_thursday_pool: "base_pool (staff before_thursday) (june_2026 4) = [3, 4]"
  by code_simp

lemma after_thursday_shift: "Shift (last (rota_data after_thursday)) = Some ''Sarmad''"
  by code_simp

lemma after_thursday_last: "last_assigned_staff after_thursday = Some ''Sarmad''"
  by code_simp

text \<open>
  The second run: the roster of the application, nobody on holiday, no closure day. Jane
  works Monday and John works Tuesday. On Wednesday John, Jane, Cheryl and Claire are
  eligible; John worked the day before, so the pool is Jane (one shift), Cheryl and Claire
  (no shift), and the engine selects Cheryl (position 2 of the roster).
\<close>

lemma before_wednesday_run:
  "rota_loop random_choice False {} [june_2026 1, june_2026 2]
     (init_state zero_draws staff_list) = Inr before_wednesday"
proof -
  from rota_loop_total [OF choice_sound_random] obtain st where
    "rota_loop random_choice False {} [june_2026 1, june_2026 2]
       (init_state zero_draws staff_list) = Inr st" by blast
  thus ?thesis by (simp add: before_wednesday_def)
qed

lemma after_wednesday_step:
  "rota_step random_choice False {} (june_2026 3) before_wednesday = Inr after_wednesday"
proof -
  from rota_step_total [OF choice_sound_random] obtain st where
    "rota_step random_choice False {} (june_2026 3) before_wednesday = Inr st" by blast
  thus ?thesis by (simp add: after_wednesday_def)
qed

lemma before_wednesday_shifts:
  "map Shift (rota_data before_wednesday) = [Some ''Jane'', Some ''John'']"
  by code_simp

lemma before_wednesday_last: "last_assigned_staff before_wednesday = Some ''John''"
  by code_simp

lemma before_wednesday_names:
  "map name (staff before_wednesday) = [''John'', ''Jane'', ''Cheryl'', ''Claire'', ''Sarmad'']"
  by code_simp

lemma before_wednesday_shift_counts:
  "map shift_count (staff before_wednesday) = [1, 1, 0, 0, 0]"
  by code_simp

lemma before_wednesday_eligible:
  "[i \<leftarrow> [0 ..< length (staff before_wednesday)].
      eligible_today (staff before_wednesday ! i) (june_2026 3)] = [0, 1, 2, 3]"
  by code_simp

lemma before_wednesday_pool:
  "day_pool (staff before_wednesday) (last_assigned_staff before_wednesday) (june_2026 3)
     = [1, 2, 3]"
  by code_simp

lemma after_wednesday_staff:
  "staff after_wednesday = assign_to (june_2026 3) 2 (staff before_wednesday)"
  by code_simp

lemma after_wednesday_shift: "Shift (last (rota_data after_wednesday)) = Some ''Cheryl''"
  by code_simp

section \<open>Instances\<close>

text \<open>
  Each theorem above that has premises is applied here to a concrete run of the first week of
  June 2026: the roster of the application for most of them, the roster with holidays
  (\<open>away_roster\<close>) where holidays or the previous day's assignment matter. Where the run has
  been evaluated above, the instance states the evaluated facts beside the theorem's
  conclusion.
\<close>

theorem closure_day_entry_witness:
  "((2::nat) < length first_week) \<and>
   (first_week ! (2::nat) \<in> {june_2026 3}) \<and>
   (\<exists>st st' fin.
           rota_loop random_choice False {june_2026 3} (take (2::nat) first_week) (init_state zero_draws staff_list) = Inr st
         \<and> rota_step random_choice False {june_2026 3} (first_week ! (2::nat)) st = Inr st'
         \<and> generate_rota False zero_draws first_week staff_list {june_2026 3} = Inr fin
         \<and> Date (rota_data fin ! (2::nat)) = strftime_dmY False (first_week ! (2::nat))
         \<and> Shift (rota_data fin ! (2::nat)) = Some ''CLOSED''
         \<and> prefix ''University Closure'' (Notes (rota_data fin ! (2::nat)))
         \<and> staff st' = staff st
         \<and> last_assigned_staff st' = None)"
proof -
  have s1: "(2::nat) < length first_week"
    by (simp add: first_week_def)
  note h1 = s1
  have s2: "first_week ! (2::nat) \<in> {june_2026 3}"
    by (simp add: first_week_def)
  note h2 = s2
  from closure_day_entry [where pad = "False" and g = "zero_draws" and k = "(2::nat)" and dates = "first_week" and closure_days = "{june_2026 3}" and roster = "staff_list", OF h1 h2]
  have c: "\<exists>st st' fin.
           rota_loop random_choice False {june_2026 3} (take (2::nat) first_week) (init_state zero_draws staff_list) = Inr st
         \<and> rota_step random_choice False {june_2026 3} (first_week ! (2::nat)) st = Inr st'
         \<and> generate_rota False zero_draws first_week staff_list {june_2026 3} = Inr fin
         \<and> Date (rota_data fin ! (2::nat)) = strftime_dmY False (first_week ! (2::nat))
         \<and> Shift (rota_data fin ! (2::nat)) = Some ''CLOSED''
         \<and> prefix ''University Closure'' (Notes (rota_data fin ! (2::nat)))
         \<and> staff st' = staff st
         \<and> last_assigned_staff st' = None" .
  from s1 s2 c show ?thesis by (intro conjI)
qed


theorem least_loaded_among_not_last_witness:
  "((2::nat) < length first_week) \<and>
   (first_week ! (2::nat) \<notin> {}) \<and>
   (take (2::nat) first_week = [june_2026 1, june_2026 2]) \<and>
   (first_week ! (2::nat) = june_2026 3) \<and>
   (rota_loop random_choice False {} [june_2026 1, june_2026 2] (init_state zero_draws staff_list) = Inr before_wednesday) \<and>
   (rota_step random_choice False {} (june_2026 3) before_wednesday = Inr after_wednesday) \<and>
   (map name (staff before_wednesday) = [''John'', ''Jane'', ''Cheryl'', ''Claire'', ''Sarmad'']) \<and>
   (last_assigned_staff before_wednesday = Some ''John'') \<and>
   (map shift_count (staff before_wednesday) = [1, 1, 0, 0, 0]) \<and>
   ([i \<leftarrow> [0 ..< length (staff before_wednesday)]. eligible_today (staff before_wednesday ! i) (june_2026 3)] = [0, 1, 2, 3]) \<and>
   (staff after_wednesday = assign_to (june_2026 3) 2 (staff before_wednesday)) \<and>
   (\<exists>st st' fin.
           rota_loop random_choice False {} (take (2::nat) first_week) (init_state zero_draws staff_list) = Inr st
         \<and> rota_step random_choice False {} (first_week ! (2::nat)) st = Inr st'
         \<and> generate_rota False zero_draws first_week staff_list {} = Inr fin
         \<and> (\<forall>j < length (staff st). staff st' = assign_to (first_week ! (2::nat)) j (staff st) \<longrightarrow>
               (\<forall>i < length (staff st).
                   eligible_today (staff st ! i) (first_week ! (2::nat))
                   \<and> last_assigned_staff st \<noteq> Some (name (staff st ! i))
                   \<longrightarrow> shift_count (staff st ! j) \<le> shift_count (staff st ! i))))"
proof -
  have s1: "(2::nat) < length first_week"
    by (simp add: first_week_def)
  note h1 = s1
  have s2: "first_week ! (2::nat) \<notin> {}"
    by simp
  note h2 = s2
  have e1: "take (2::nat) first_week = [june_2026 1, june_2026 2]"
    by (simp add: first_week_def)
  have e2: "first_week ! (2::nat) = june_2026 3"
    by (simp add: first_week_def)
  have e3: "rota_loop random_choice False {} [june_2026 1, june_2026 2] (init_state zero_draws staff_list) = Inr before_wednesday"
    by (rule before_wednesday_run)
  have e4: "rota_step random_choice False {} (june_2026 3) before_wednesday = Inr after_wednesday"
    by (rule after_wednesday_step)
  have e5: "map name (staff before_wednesday) = [''John'', ''Jane'', ''Cheryl'', ''Claire'', ''Sarmad'']"
    by (rule before_wednesday_names)
  have e6: "last_assigned_staff before_wednesday = Some ''John''"
    by (rule before_wednesday_last)
  have e7: "map shift_count (staff before_wednesday) = [1, 1, 0, 0, 0]"
    by (rule before_wednesday_shift_counts)
  have e8: "[i \<leftarrow> [0 ..< length (staff before_wednesday)]. eligible_today (staff before_wednesday ! i) (june_2026 3)] = [0, 1, 2, 3]"
    by (rule before_wednesday_eligible)
  have e9: "staff after_wednesday = assign_to (june_2026 3) 2 (staff before_wednesday)"
    by (rule after_wednesday_staff)
  from least_loaded_among_not_last [where pad = "False" and g = "zero_draws" and k = "(2::nat)" and dates = "first_week" and closure_days = "{}" and roster = "staff_list", OF h1 h2]
  have c: "\<exists>st st' fin.
           rota_loop random_choice False {} (take (2::nat) first_week) (init_state zero_draws staff_list) = Inr st
         \<and> rota_step random_choice False {} (first_week ! (2::nat)) st = Inr st'
         \<and> generate_rota False zero_draws first_week staff_list {} = Inr fin
         \<and> (\<forall>j < length (staff st). staff st' = assign_to (first_week ! (2::nat)) j (staff st) \<longrightarrow>
               (\<forall>i < length (staff st).
                   eligible_today (staff st ! i) (first_week ! (2::nat))
                   \<and> last_assigned_staff st \<noteq> Some (name (staff st ! i))
                   \<longrightarrow> shift_count (staff st ! j) \<le> shift_count (staff st ! i)))" .
  from s1 s2 e1 e2 e3 e4 e5 e6 e7 e8 e9 c show ?thesis by (intro conjI)
qed

theorem consecutive_avoidance_witness:
  "((3::nat) < length first_week) \<and>
   (first_week ! (3::nat) \<notin> {}) \<and>
   (take (3::nat) first_week = [june_2026 1, june_2026 2, june_2026 3]) \<and>
   (first_week ! (3::nat) = june_2026 4) \<and>
   (rota_loop random_choice False {} [june_2026 1, june_2026 2, june_2026 3] (init_state zero_draws away_roster) = Inr before_thursday) \<and>
   (rota_step random_choice False {} (june_2026 4) before_thursday = Inr after_thursday) \<and>
   (map Shift (rota_data before_thursday) = [Some ''Sarmad'', Some ''Sarmad'', Some ''Claire'']) \<and>
   (last_assigned_staff before_thursday = Some ''Claire'') \<and>
   (map name (staff before_thursday) = [''John'', ''Jane'', ''Cheryl'', ''Claire'', ''Sarmad'']) \<and>
   (base_pool (staff before_thursday) (june_2026 4) = [3, 4]) \<and>
   (Shift (last (rota_data after_thursday)) = Some ''Sarmad'') \<and>
   (last_assigned_staff after_thursday = Some ''Sarmad'') \<and>
   (\<exists>st st' fin.
           rota_loop random_choice False {} (take (3::nat) first_week) (init_state zero_draws away_roster) = Inr st
         \<and> rota_step random_choice False {} (first_week ! (3::nat)) st = Inr st'
         \<and> rota_loop random_choice False {} (take (Suc (3::nat)) first_week) (init_state zero_draws away_roster) = Inr st'
         \<and> generate_rota False zero_draws first_week away_roster {} = Inr fin
         \<and> (base_pool (staff st) (first_week ! (3::nat)) \<noteq> [] \<longrightarrow>
               (\<exists>j \<in> set (base_pool (staff st) (first_week ! (3::nat))).
                   Shift (rota_data fin ! (3::nat)) = Some (name (staff st ! j))
                   \<and> last_assigned_staff st' = Some (name (staff st ! j))))
         \<and> (base_pool (staff st) (first_week ! (3::nat)) = [] \<longrightarrow> last_assigned_staff st' = None)
         \<and> (0 < (3::nat) \<and> first_week ! ((3::nat) - 1) \<notin> {} \<longrightarrow>
               (\<exists>p. rota_loop random_choice False {} (take ((3::nat) - 1) first_week)
                      (init_state zero_draws away_roster) = Inr p
                  \<and> rota_step random_choice False {} (first_week ! ((3::nat) - 1)) p = Inr st
                  \<and> (base_pool (staff p) (first_week ! ((3::nat) - 1)) \<noteq> [] \<longrightarrow>
                        (\<exists>j \<in> set (base_pool (staff p) (first_week ! ((3::nat) - 1))).
                            Shift (rota_data fin ! ((3::nat) - 1)) = Some (name (staff p ! j))
                            \<and> last_assigned_staff st = Some (name (staff p ! j))))))
         \<and> (\<forall>l. last_assigned_staff st = Some l \<longrightarrow>
               0 < (3::nat) \<and> Shift (rota_data fin ! ((3::nat) - 1)) = Some l
             \<and> ((\<exists>i \<in> set (base_pool (staff st) (first_week ! (3::nat))). name (staff st ! i) \<noteq> l)
                    \<longrightarrow> Shift (rota_data fin ! (3::nat)) \<noteq> Some l)
             \<and> (Shift (rota_data fin ! (3::nat)) = Some l \<and> l \<noteq> ''UNASSIGNED''
                  \<and> distinct (map name away_roster)
                    \<longrightarrow> (\<exists>j. base_pool (staff st) (first_week ! (3::nat)) = [j] \<and> name (away_roster ! j) = l))))"
proof -
  have s1: "(3::nat) < length first_week"
    by (simp add: first_week_def)
  note h1 = s1
  have s2: "first_week ! (3::nat) \<notin> {}"
    by simp
  note h2 = s2
  have e1: "take (3::nat) first_week = [june_2026 1, june_2026 2, june_2026 3]"
    by (simp add: first_week_def)
  have e2: "first_week ! (3::nat) = june_2026 4"
    by (simp add: first_week_def)
  have e3: "rota_loop random_choice False {} [june_2026 1, june_2026 2, june_2026 3] (init_state zero_draws away_roster) = Inr before_thursday"
    by (rule before_thursday_run)
  have e4: "rota_step random_choice False {} (june_2026 4) before_thursday = Inr after_thursday"
    by (rule after_thursday_step)
  have e5: "map Shift (rota_data before_thursday) = [Some ''Sarmad'', Some ''Sarmad'', Some ''Claire'']"
    by (rule before_thursday_shifts)
  have e6: "last_assigned_staff before_thursday = Some ''Claire''"
    by (rule before_thursday_last)
  have e7: "map name (staff before_thursday) = [''John'', ''Jane'', ''Cheryl'', ''Claire'', ''Sarmad'']"
    by (rule before_thursday_names)
  have e8: "base_pool (staff before_thursday) (june_2026 4) = [3, 4]"
    by (rule before_thursday_pool)
  have e9: "Shift (last (rota_data after_thursday)) = Some ''Sarmad''"
    by (rule after_thursday_shift)
  have e10: "last_assigned_staff after_thursday = Some ''Sarmad''"
    by (rule after_thursday_last)
  from consecutive_avoidance [where pad = "False" and g = "zero_draws" and k = "(3::nat)" and dates = "first_week" and closure_days = "{}" and roster = "away_roster", OF h1 h2]
  have c: "\<exists>st st' fin.
           rota_loop random_choice False {} (take (3::nat) first_week) (init_state zero_draws away_roster) = Inr st
         \<and> rota_step random_choice False {} (first_week ! (3::nat)) st = Inr st'
         \<and> rota_loop random_choice False {} (take (Suc (3::nat)) first_week) (init_state zero_draws away_roster) = Inr st'
         \<and> generate_rota False zero_draws first_week away_roster {} = Inr fin
         \<and> (base_pool (staff st) (first_week ! (3::nat)) \<noteq> [] \<longrightarrow>
               (\<exists>j \<in> set (base_pool (staff st) (first_week ! (3::nat))).
                   Shift (rota_data fin ! (3::nat)) = Some (name (staff st ! j))
                   \<and> last_assigned_staff st' = Some (name (staff st ! j))))
         \<and> (base_pool (staff st) (first_week ! (3::nat)) = [] \<longrightarrow> last_assigned_staff st' = None)
         \<and> (0 < (3::nat) \<and> first_week ! ((3::nat) - 1) \<notin> {} \<longrightarrow>
               (\<exists>p. rota_loop random_choice False {} (take ((3::nat) - 1) first_week)
                      (init_state zero_draws away_roster) = Inr p
                  \<and> rota_step random_choice False {} (first_week ! ((3::nat) - 1)) p = Inr st
                  \<and> (base_pool (staff p) (first_week ! ((3::nat) - 1)) \<noteq> [] \<longrightarrow>
                        (\<exists>j \<in> set (base_pool (staff p) (first_week ! ((3::nat) - 1))).
                            Shift (rota_data fin ! ((3::nat) - 1)) = Some (name (staff p ! j))
                            \<and> last_assigned_staff st = Some (name (staff p ! j))))))
         \<and> (\<forall>l. last_assigned_staff st = Some l \<longrightarrow>
               0 < (3::nat) \<and> Shift (rota_data fin ! ((3::nat) - 1)) = Some l
             \<and> ((\<exists>i \<in> set (base_pool (staff st) (first_week ! (3::nat))). name (staff st ! i) \<noteq> l)
                    \<longrightarrow> Shift (rota_data fin ! (3::nat)) \<noteq> Some l)
             \<and> (Shift (rota_data fin ! (3::nat)) = Some l \<and> l \<noteq> ''UNASSIGNED''
                  \<and> distinct (map name away_roster)
                    \<longrightarrow> (\<exists>j. base_pool (staff st) (first_week ! (3::nat)) = [j] \<and> name (away_roster ! j) = l)))" .
  from s1 s2 e1 e2 e3 e4 e5 e6 e7 e8 e9 e10 c show ?thesis by (intro conjI)
qed

theorem assigned_dates_match_shift_count_witness:
  "(distinct first_week) \<and>
   ((5::nat) \<le> length first_week) \<and>
   (\<exists>st. rota_loop random_choice False {june_2026 3} (take (5::nat) first_week)
                 (init_state zero_draws (reset_staff staff_list)) = Inr st
            \<and> (\<forall>s \<in> set (staff st).
                  finite (assigned_dates s) \<and> int (card (assigned_dates s)) = shift_count s))"
proof -
  have s1: "distinct first_week"
    by (simp add: first_week_def june_2026_def)
  note h1 = s1
  have s2: "(5::nat) \<le> length first_week"
    by (simp add: first_week_def)
  note h2 = s2
  from assigned_dates_match_shift_count [where pad = "False" and g = "zero_draws" and k = "(5::nat)" and dates = "first_week" and closure_days = "{june_2026 3}" and roster = "staff_list", OF h1 h2]
  have c: "\<exists>st. rota_loop random_choice False {june_2026 3} (take (5::nat) first_week)
                 (init_state zero_draws (reset_staff staff_list)) = Inr st
            \<and> (\<forall>s \<in> set (staff st).
                  finite (assigned_dates s) \<and> int (card (assigned_dates s)) = shift_count s)" .
  from s1 s2 c show ?thesis by (intro conjI)
qed

theorem load_conservation_witness:
  "(no_sentinel_names staff_list) \<and>
   (\<exists>fin. generate_rota False zero_draws first_week (reset_staff staff_list) {june_2026 3} = Inr fin
            \<and> sum_list (map shift_count (staff fin)) = int (length (assigned_entries (rota_data fin))))"
proof -
  have s1: "no_sentinel_names staff_list"
    by (simp add: no_sentinel_names_def staff_list_def)
  note h1 = s1
  from load_conservation [where pad = "False" and g = "zero_draws" and dates = "first_week" and closure_days = "{june_2026 3}" and roster = "staff_list", OF h1]
  have c: "\<exists>fin. generate_rota False zero_draws first_week (reset_staff staff_list) {june_2026 3} = Inr fin
            \<and> sum_list (map shift_count (staff fin)) = int (length (assigned_entries (rota_data fin)))" .
  from s1 c show ?thesis by (intro conjI)
qed

theorem no_assignment_on_holiday_witness:
  "(distinct (map name away_roster)) \<and>
   (no_sentinel_names away_roster) \<and>
   (list_all valid_date [june_2026 1, june_2026 2, june_2026 3]) \<and>
   (map holidays away_roster = [{june_2026 2, june_2026 3}, {june_2026 1, june_2026 2, june_2026 3}, {june_2026 2, june_2026 3}, {}, {}]) \<and>
   ([i \<leftarrow> [0 ..< length away_roster]. date_weekday (june_2026 1) \<in> set (office_days (away_roster ! i))] = [1, 4]) \<and>
   ([i \<leftarrow> [0 ..< length away_roster]. date_weekday (june_2026 3) \<in> set (office_days (away_roster ! i))] = [0, 1, 2, 3]) \<and>
   (generate_rota False zero_draws [june_2026 1, june_2026 2, june_2026 3] away_roster {} = Inr before_thursday) \<and>
   (map Shift (rota_data before_thursday) = [Some ''Sarmad'', Some ''Sarmad'', Some ''Claire'']) \<and>
   (\<exists>fin. generate_rota False zero_draws [june_2026 1, june_2026 2, june_2026 3] away_roster {} = Inr fin
            \<and> (\<forall>k < length [june_2026 1, june_2026 2, june_2026 3]. \<forall>s \<in> set away_roster.
                   Shift (rota_data fin ! k) = Some (name s) \<longrightarrow> [june_2026 1, june_2026 2, june_2026 3] ! k \<notin> holidays s)
            \<and> (\<forall>n x. Assigned_on_holiday n x \<notin> set (validate_warnings (rota_data fin) (staff fin)))
            \<and> (False \<or> (\<forall>d \<in> set [june_2026 1, june_2026 2, june_2026 3]. 1000 \<le> date_year d)
                  \<longrightarrow> validate_shifts (rota_data fin) (staff fin) = []))"
proof -
  have s1: "distinct (map name away_roster)"
    by (simp add: away_roster_def)
  note h1 = s1
  have s2: "no_sentinel_names away_roster"
    by (simp add: no_sentinel_names_def away_roster_def)
  note h2 = s2
  have s3: "list_all valid_date [june_2026 1, june_2026 2, june_2026 3]"
    by (simp add: june_2026_def valid_date_def MINYEAR_def MAXYEAR_def days_in_month_def DAYS_IN_MONTH_def)
  from s3 have h3: "\<forall>d \<in> set [june_2026 1, june_2026 2, june_2026 3]. valid_date d"
    by simp
  have e1: "map holidays away_roster = [{june_2026 2, june_2026 3}, {june_2026 1, june_2026 2, june_2026 3}, {june_2026 2, june_2026 3}, {}, {}]"
    by (rule away_roster_holidays)
  have e2: "[i \<leftarrow> [0 ..< length away_roster]. date_weekday (june_2026 1) \<in> set (office_days (away_roster ! i))] = [1, 4]"
    by (rule away_roster_monday)
  have e3: "[i \<leftarrow> [0 ..< length away_roster]. date_weekday (june_2026 3) \<in> set (office_days (away_roster ! i))] = [0, 1, 2, 3]"
    by (rule away_roster_wednesday)
  have e4: "generate_rota False zero_draws [june_2026 1, june_2026 2, june_2026 3] away_roster {} = Inr before_thursday"
    by (rule before_thursday_generated)
  have e5: "map Shift (rota_data before_thursday) = [Some ''Sarmad'', Some ''Sarmad'', Some ''Claire'']"
    by (rule before_thursday_shifts)
  from no_assignment_on_holiday [where pad = "False" and g = "zero_draws" and dates = "[june_2026 1, june_2026 2, june_2026 3]" and closure_days = "{}" and roster = "away_roster", OF h1 h2 h3]
  have c: "\<exists>fin. generate_rota False zero_draws [june_2026 1, june_2026 2, june_2026 3] away_roster {} = Inr fin
            \<and> (\<forall>k < length [june_2026 1, june_2026 2, june_2026 3]. \<forall>s \<in> set away_roster.
                   Shift (rota_data fin ! k) = Some (name s) \<longrightarrow> [june_2026 1, june_2026 2, june_2026 3] ! k \<notin> holidays s)
            \<and> (\<forall>n x. Assigned_on_holiday n x \<notin> set (validate_warnings (rota_data fin) (staff fin)))
            \<and> (False \<or> (\<forall>d \<in> set [june_2026 1, june_2026 2, june_2026 3]. 1000 \<le> date_year d)
                  \<longrightarrow> validate_shifts (rota_data fin) (staff fin) = [])" .
  from s1 s2 s3 e1 e2 e3 e4 e5 c show ?thesis by (intro conjI)
qed

theorem one_entry_per_working_day_witness:
  "(1 \<le> (2026::int)) \<and>
   ((2026::int) \<le> 9999) \<and>
   (1 \<le> (6::int)) \<and>
   ((6::int) \<le> 12) \<and>
   (\<exists>fin. generate_dates (2026::int) (6::int) = Inr (working_dates (2026::int) (6::int))
            \<and> set (working_dates (2026::int) (6::int)) =
                 {d. valid_date d \<and> date_year d = (2026::int) \<and> date_month d = (6::int) \<and> date_weekday d < 5}
            \<and> sorted_wrt date_lt (working_dates (2026::int) (6::int))
            \<and> distinct (working_dates (2026::int) (6::int))
            \<and> generate_rota False zero_draws (working_dates (2026::int) (6::int)) staff_list {june_2026 3} = Inr fin
            \<and> length (rota_data fin) = length (working_dates (2026::int) (6::int))
            \<and> (\<forall>k < length (working_dates (2026::int) (6::int)).
                   Date (rota_data fin ! k) = strftime_dmY False (working_dates (2026::int) (6::int) ! k))
            \<and> distinct (map Date (rota_data fin)))"
proof -
  have s1: "1 \<le> (2026::int)"
    by simp
  note h1 = s1
  have s2: "(2026::int) \<le> 9999"
    by simp
  note h2 = s2
  have s3: "1 \<le> (6::int)"
    by simp
  note h3 = s3
  have s4: "(6::int) \<le> 12"
    by simp
  note h4 = s4
  from one_entry_per_working_day [where pad = "False" and g = "zero_draws" and y = "(2026::int)" and m = "(6::int)" and closure_days = "{june_2026 3}" and roster = "staff_list", OF h1 h2 h3 h4]
  have c: "\<exists>fin. generate_dates (2026::int) (6::int) = Inr (working_dates (2026::int) (6::int))
            \<and> set (working_dates (2026::int) (6::int)) =
                 {d. valid_date d \<and> date_year d = (2026::int) \<and> date_month d = (6::int) \<and> date_weekday d < 5}
            \<and> sorted_wrt date_lt (working_dates (2026::int) (6::int))
            \<and> distinct (working_dates (2026::int) (6::int))
            \<and> generate_rota False zero_draws (working_dates (2026::int) (6::int)) staff_list {june_2026 3} = Inr fin
            \<and> length (rota_data fin) = length (working_dates (2026::int) (6::int))
            \<and> (\<forall>k < length (working_dates (2026::int) (6::int)).
                   Date (rota_data fin ! k) = strftime_dmY False (working_dates (2026::int) (6::int) ! k))
            \<and> distinct (map Date (rota_data fin))" .
  from s1 s2 s3 s4 c show ?thesis by (intro conjI)
qed

theorem date_strings_parse_back_witness:
  "(list_all (\<lambda>d. valid_date d \<and> (False \<or> 1000 \<le> date_year d)) first_week) \<and>
   (\<exists>fin. generate_rota False zero_draws first_week staff_list {june_2026 3} = Inr fin
            \<and> (\<forall>k < length first_week.
                   Date (rota_data fin ! k) = strftime_dmY False (first_week ! k)
                   \<and> strptime_dmY (Date (rota_data fin ! k)) = Inr (first_week ! k))
            \<and> (\<forall>x. Invalid_date_format x \<notin> set (validate_warnings (rota_data fin) (staff fin))))"
proof -
  have s1: "list_all (\<lambda>d. valid_date d \<and> (False \<or> 1000 \<le> date_year d)) first_week"
    by (simp add: first_week_def june_2026_def valid_date_def MINYEAR_def MAXYEAR_def days_in_month_def DAYS_IN_MONTH_def)
  from s1 have h1: "\<forall>d \<in> set first_week. valid_date d \<and> (False \<or> 1000 \<le> date_year d)"
    by (simp add: list_all_iff)
  from date_strings_parse_back [where pad = "False" and g = "zero_draws" and dates = "first_week" and closure_days = "{june_2026 3}" and roster = "staff_list", OF h1]
  have c: "\<exists>fin. generate_rota False zero_draws first_week staff_list {june_2026 3} = Inr fin
            \<and> (\<forall>k < length first_week.
                   Date (rota_data fin ! k) = strftime_dmY False (first_week ! k)
                   \<and> strptime_dmY (Date (rota_data fin ! k)) = Inr (first_week ! k))
            \<and> (\<forall>x. Invalid_date_format x \<notin> set (validate_warnings (rota_data fin) (staff fin)))" .
  from s1 c show ?thesis by (intro conjI)
qed

text \<open>
  The run that shows why claim C3 needed its amendment: the Thursday of the first run
  above, where Sarmad (two shifts) is selected although Claire (one shift) is eligible,
  because Claire worked the day before.
\<close>

theorem busier_member_chosen_counterexample:
  "rota_loop random_choice False {} [june_2026 1, june_2026 2, june_2026 3]
     (init_state zero_draws away_roster) = Inr before_thursday
   \<and> map Shift (rota_data before_thursday) = [Some ''Sarmad'', Some ''Sarmad'', Some ''Claire'']
   \<and> last_assigned_staff before_thursday = Some ''Claire''
   \<and> map shift_count (staff before_thursday) = [0, 0, 0, 1, 2]
   \<and> rota_step random_choice False {} (june_2026 4) before_thursday = Inr after_thursday
   \<and> Shift (last (rota_data after_thursday)) = Some ''Sarmad''
   \<and> staff after_thursday = assign_to (june_2026 4) 4 (staff before_thursday)
   \<and> eligible_today (staff before_thursday ! 3) (june_2026 4)
   \<and> shift_count (staff before_thursday ! 3) < shift_count (staff before_thursday ! 4)"
  by (intro conjI before_thursday_run before_thursday_shifts before_thursday_last
        before_thursday_shift_counts after_thursday_step after_thursday_shift
        after_thursday_staff before_thursday_claire before_thursday_counts)

text \<open>
  The date that shows why claim C10 needed its amendment: Monday 7 January 999, where the
  C library does not pad the year. The engine writes \<^verbatim>\<open>07/01/999\<close>, which
  \<^verbatim>\<open>strptime\<close> rejects (\<^verbatim>\<open>%Y\<close> wants four digits), and the validator reports an invalid
  date format.
\<close>

lemma jan_999_valid: "valid_date jan_999"
  by (simp add: jan_999_def valid_date_def MINYEAR_def MAXYEAR_def days_in_month_def
                DAYS_IN_MONTH_def)

lemma year_999_run_eq: "generate_rota False zero_draws [jan_999] staff_list {} = Inr year_999_run"
proof -
  from rota_loop_total [OF choice_sound_random] obtain st where
    "rota_loop random_choice False {} [jan_999] (init_state zero_draws staff_list) = Inr st"
    by blast
  thus ?thesis
    by (simp add: year_999_run_def generate_rota_def generate_rota_with_def)
qed

lemma year_999_dates: "map Date (rota_data year_999_run) = [''07/01/999'']"
  by code_simp

lemma year_999_parse: "strptime_dmY ''07/01/999'' = Inl ValueError"
  by code_simp

lemma year_999_warnings:
  "validate_shifts (rota_data year_999_run) (staff year_999_run)
     = [''Invalid date format in 07/01/999'']"
  by code_simp

theorem year_below_1000_counterexample:
  "valid_date jan_999
   \<and> generate_rota False zero_draws [jan_999] staff_list {} = Inr year_999_run
   \<and> map Date (rota_data year_999_run) = [''07/01/999'']
   \<and> strptime_dmY ''07/01/999'' = Inl ValueError
   \<and> validate_shifts (rota_data year_999_run) (staff year_999_run)
        = [''Invalid date format in 07/01/999'']"
  by (intro conjI jan_999_valid year_999_run_eq year_999_dates year_999_parse year_999_warnings)

end
